theory Spec2Isabelle
  imports Main "HOL-Library.Sublist"
begin

section \<open>Strings of the script\<close>

text \<open>
  A string of the script is a sequence of UTF-16 code units. The embedding covers the
  strings whose code units are below 256 (ASCII and the Latin-1 supplement, which holds
  every accented letter of the configured keywords): a \<^typ>\<open>char\<close> is one such code unit,
  \<open>CHR 0xF3\<close> being the letter o with acute accent. On these strings
  \<open>String.prototype.trim\<close>, \<open>toLowerCase\<close>, \<open>split\<close> and \<open>includes\<close> are as below.
\<close>

definition isWhiteSpace :: "char \<Rightarrow> bool" where
  \<comment> \<open>WhiteSpace and LineTerminator code units below 256: TAB, LF, VT, FF, CR, SP, NBSP.\<close>
  "isWhiteSpace c = (of_char c \<in> {9, 10, 11, 12, 13, 32, 160 :: nat})"

definition trim :: "string \<Rightarrow> string" where
  "trim s = rev (dropWhile isWhiteSpace (rev (dropWhile isWhiteSpace s)))"

definition lowerUnit :: "char \<Rightarrow> char" where
  \<comment> \<open>A-Z and the capital letters 0xC0-0xDE (0xD7 is the multiplication sign) move up by 32.\<close>
  "lowerUnit c = (let n = of_char c :: nat in
     if (65 \<le> n \<and> n \<le> 90) \<or> (192 \<le> n \<and> n \<le> 222 \<and> n \<noteq> 215)
     then char_of (n + 32) else c)"

definition toLowerCase :: "string \<Rightarrow> string" where
  "toLowerCase s = map lowerUnit s"

definition upperUnit :: "char \<Rightarrow> nat list" where
  \<comment> \<open>The upper-case image of one code unit, as code units that may leave Latin-1:
      sharp s (0xDF) gives SS, y with diaeresis (0xFF) gives U+0178, the micro sign (0xB5)
      gives U+039C; a-z and 0xE0-0xFE (0xF7 is the division sign) move down by 32.\<close>
  "upperUnit c = (let n = of_char c :: nat in
     if n = 223 then [83, 83]
     else if n = 255 then [376]
     else if n = 181 then [924]
     else if (97 \<le> n \<and> n \<le> 122) \<or> (224 \<le> n \<and> n \<le> 254 \<and> n \<noteq> 247)
     then [n - 32] else [n])"

definition toUpperCase :: "string \<Rightarrow> nat list" where
  "toUpperCase s = concat (map upperUnit s)"

definition codeUnits :: "string \<Rightarrow> nat list" where
  "codeUnits s = map of_char s"

fun split :: "char \<Rightarrow> string \<Rightarrow> string list" where
  \<comment> \<open>\<open>s.split(sep)\<close> for a separator of one code unit; the empty string gives one empty piece.\<close>
  "split sep [] = [[]]"
| "split sep (c # cs) =
     (if c = sep then [] # split sep cs
      else (case split sep cs of [] \<Rightarrow> [[c]] | p # ps \<Rightarrow> (c # p) # ps))"

fun includes_str :: "string \<Rightarrow> string \<Rightarrow> bool" where
  \<comment> \<open>\<open>tag.includes(keyword)\<close>: the keyword starts at some position of the tag.\<close>
  "includes_str [] keyword = (keyword = [])"
| "includes_str (c # cs) keyword = (prefix keyword (c # cs) \<or> includes_str cs keyword)"

fun join :: "char \<Rightarrow> string list \<Rightarrow> string" where
  \<comment> \<open>\<open>pieces.join(sep)\<close>, by which the pieces of \<open>split\<close> are stated.\<close>
  "join sep [] = []"
| "join sep [p] = p"
| "join sep (p # q # ps) = p @ sep # join sep (q # ps)"

section \<open>Configuration\<close>

definition PUBLICABLE_COL_NAME :: string where "PUBLICABLE_COL_NAME = ''Publicable''"
definition RESPUESTA_COL_NAME :: string where "RESPUESTA_COL_NAME = ''Respuesta''"
definition RESPUESTA_ACT_COL_NAME :: string where "RESPUESTA_ACT_COL_NAME = ''Respuesta Actualizada''"
definition ETIQUETA_ORIG_COL_NAME :: string where "ETIQUETA_ORIG_COL_NAME = ''Etiqueta Original''"
definition ETIQUETA_PROP_COL_NAME :: string where "ETIQUETA_PROP_COL_NAME = ''Etiqueta Propuesta''"

definition TAG_SEPARATOR :: char where
  \<comment> \<open>The string \<open>';'\<close>, of one code unit.\<close>
  "TAG_SEPARATOR = CHR '';''"
definition EXCLUDED_TAG :: string where "EXCLUDED_TAG = ''Sedes''"

definition GROUPING_RULES :: "(string \<times> string list) list" where
  \<comment> \<open>The object literal, as its entries in insertion order, which is the order of \<open>for ... in\<close>.\<close>
  "GROUPING_RULES =
    [(''FAQ_Ingresantes'',
        [''Ingreso'', ''Ingresantes'', ''Art. 7'', ''Inscripci'' @ [CHR 0xF3] @ ''n'', ''Beca'', ''CIVU'']),
     (''FAQ_Alumnos_Examen'', [''Alumno'', ''Examen'']),
     (''FAQ_Tramites_Equivalencias_SAG'', [''Tramites'', ''Aranceles'', ''equivalencias'', ''SAG'']),
     (''FAQ_Preguntas_frecuentes_generales'',
        [''Oferta Acad'' @ [CHR 0xE9] @ ''mica'', ''Postgrados'', ''Cursos'', ''FAQ'', ''Varios''])]"

section \<open>The header index\<close>

type_synonym colIndices = "string \<rightharpoonup> nat"

text \<open>
  \<open>findColumnHeaders\<close> fills a plain object \<open>{}\<close> by \<open>indices[header.trim()] = index\<close>. The map
  holds the object's own properties. An assignment to the key \<open>__proto__\<close> creates none: it
  reaches the setter inherited from \<open>Object.prototype\<close>, which ignores a number. Every other
  key is created or overwritten.
\<close>

definition assignIndex :: "colIndices \<Rightarrow> string \<Rightarrow> nat \<Rightarrow> colIndices" where
  "assignIndex indices key index =
     (if key = ''__proto__'' then indices else indices(key \<mapsto> index))"

fun forEachHeader :: "string list \<Rightarrow> nat \<Rightarrow> colIndices \<Rightarrow> colIndices" where
  \<comment> \<open>Lines 82-84, over the headers from position \<open>index\<close> on.\<close>
  "forEachHeader [] index indices = indices"
| "forEachHeader (header # headers) index indices =
     forEachHeader headers (Suc index) (assignIndex indices (trim header) index)"

definition findColumnHeaders :: "string list \<Rightarrow> colIndices" where
  \<comment> \<open>Lines 80-86.\<close>
  "findColumnHeaders headers = forEachHeader headers 0 Map.empty"

section \<open>Rows\<close>

text \<open>
  A source row is an array of strings, as the documentation comment of \<open>processData\<close>
  types it (\<open>Array<Array<string>>\<close>). \<open>rowData\<close> is the array made by \<open>[...originalRow]\<close>:
  its elements, where \<open>None\<close> is \<open>undefined\<close> (a hole left by a write past the end), and its
  property named \<open>undefined\<close>, which is what \<open>rowData[colIndices[name]]\<close> reads and writes
  when the index object has no entry for \<open>name\<close>.
\<close>

record rowData =
  elems :: "string option list"
  undefinedProp :: "string option"

datatype error = TypeError

definition spread :: "string list \<Rightarrow> rowData" where
  "spread originalRow = \<lparr>elems = map Some originalRow, undefinedProp = None\<rparr>"

definition getCell :: "rowData \<Rightarrow> nat option \<Rightarrow> string option" where
  "getCell r k = (case k of
       None \<Rightarrow> undefinedProp r
     | Some j \<Rightarrow> if j < length (elems r) then elems r ! j else None)"

definition setCell :: "rowData \<Rightarrow> nat option \<Rightarrow> string \<Rightarrow> rowData" where
  "setCell r k v = (case k of
       None \<Rightarrow> r\<lparr>undefinedProp := Some v\<rparr>
     | Some j \<Rightarrow>
         if j < length (elems r) then r\<lparr>elems := (elems r)[j := Some v]\<rparr>
         else r\<lparr>elems := elems r @ replicate (j - length (elems r)) None @ [Some v]\<rparr>)"

definition toString :: "string option \<Rightarrow> error + string" where
  \<comment> \<open>\<open>undefined.toString()\<close> throws; a string is its own \<open>toString()\<close>.\<close>
  "toString v = (case v of None \<Rightarrow> Inl TypeError | Some s \<Rightarrow> Inr s)"

section \<open>processData\<close>

datatype step = Skip | Tagged rowData "string list"

definition publicableValue :: "rowData \<Rightarrow> colIndices \<Rightarrow> error + nat list" where
  \<comment> \<open>Line 112.\<close>
  "publicableValue r colIndices =
     (case toString (getCell r (colIndices PUBLICABLE_COL_NAME)) of
        Inl e \<Rightarrow> Inl e
      | Inr s \<Rightarrow> Inr (toUpperCase (trim s)))"

definition overwriteRespuesta :: "rowData \<Rightarrow> colIndices \<Rightarrow> error + rowData" where
  \<comment> \<open>Lines 119-122.\<close>
  "overwriteRespuesta r colIndices =
     (case toString (getCell r (colIndices RESPUESTA_ACT_COL_NAME)) of
        Inl e \<Rightarrow> Inl e
      | Inr s \<Rightarrow>
          (let respuestaActualizada = trim s in
           if respuestaActualizada \<noteq> [] then
             Inr (setCell r (colIndices RESPUESTA_COL_NAME) respuestaActualizada)
           else Inr r))"

definition overwriteEtiqueta :: "rowData \<Rightarrow> colIndices \<Rightarrow> error + rowData" where
  \<comment> \<open>Lines 124-127.\<close>
  "overwriteEtiqueta r colIndices =
     (case toString (getCell r (colIndices ETIQUETA_PROP_COL_NAME)) of
        Inl e \<Rightarrow> Inl e
      | Inr s \<Rightarrow>
          (let etiquetaPropuesta = trim s in
           if etiquetaPropuesta \<noteq> [] then
             Inr (setCell r (colIndices ETIQUETA_ORIG_COL_NAME) etiquetaPropuesta)
           else Inr r))"

definition finalEtiquetaString :: "rowData \<Rightarrow> colIndices \<Rightarrow> error + string" where
  \<comment> \<open>Line 130.\<close>
  "finalEtiquetaString r colIndices =
     (case toString (getCell r (colIndices ETIQUETA_ORIG_COL_NAME)) of
        Inl e \<Rightarrow> Inl e
      | Inr s \<Rightarrow> Inr (trim s))"

definition parseTags :: "string \<Rightarrow> string list" where
  \<comment> \<open>Lines 137-140.\<close>
  "parseTags s =
     filter (\<lambda>tag. tag \<noteq> []) (map (\<lambda>tag. toLowerCase (trim tag)) (split TAG_SEPARATOR s))"

definition filterTransform :: "string list \<Rightarrow> colIndices \<Rightarrow> error + (rowData \<times> string) option" where
  \<comment> \<open>Lines 108-130 of the loop body: \<open>None\<close> is the \<open>continue\<close> of the publish filter,
      \<open>Inl\<close> a thrown exception, otherwise the copy and its final tag string.\<close>
  "filterTransform originalRow colIndices =
     (let r = spread originalRow in
      case publicableValue r colIndices of
        Inl e \<Rightarrow> Inl e
      | Inr p \<Rightarrow>
          if p = codeUnits ''NO'' then Inr None
          else (case overwriteRespuesta r colIndices of
            Inl e \<Rightarrow> Inl e
          | Inr r1 \<Rightarrow>
              (case overwriteEtiqueta r1 colIndices of
                Inl e \<Rightarrow> Inl e
              | Inr r2 \<Rightarrow>
                  (case finalEtiquetaString r2 colIndices of
                    Inl e \<Rightarrow> Inl e
                  | Inr f \<Rightarrow> Inr (Some (r2, f))))))"

definition excludeParse :: "rowData \<Rightarrow> string \<Rightarrow> step" where
  \<comment> \<open>Lines 131-145: \<open>Skip\<close> is \<open>continue\<close>.\<close>
  "excludeParse r f =
     (if toLowerCase f = toLowerCase EXCLUDED_TAG then Skip
      else (let tags = parseTags f in
            if length tags = 0 then Skip else Tagged r tags))"

definition filterTransformParse :: "string list \<Rightarrow> colIndices \<Rightarrow> error + step" where
  \<comment> \<open>Lines 108-145.\<close>
  "filterTransformParse originalRow colIndices =
     (case filterTransform originalRow colIndices of
        Inl e \<Rightarrow> Inl e
      | Inr None \<Rightarrow> Inr Skip
      | Inr (Some (r, f)) \<Rightarrow> Inr (excludeParse r f))"

fun matchFound :: "string list \<Rightarrow> string list \<Rightarrow> bool" where
  \<comment> \<open>Lines 151-158: the loop over the tags, left by \<open>break\<close> at the first tag that
      holds a keyword.\<close>
  "matchFound keywords [] = False"
| "matchFound keywords (tag # tags) =
     (if list_ex (\<lambda>keyword. includes_str tag keyword) keywords then True
      else matchFound keywords tags)"

record state =
  outputData :: "string \<rightharpoonup> rowData list"
  processedRowIndicesBySheet :: "string \<rightharpoonup> nat set"

fun initialize :: "(string \<times> string list) list \<Rightarrow> state \<Rightarrow> state" where
  \<comment> \<open>Lines 99-102.\<close>
  "initialize [] st = st"
| "initialize ((sheetName, kws) # rules) st =
     initialize rules
       (st\<lparr>outputData := (outputData st)(sheetName \<mapsto> []),
           processedRowIndicesBySheet := (processedRowIndicesBySheet st)(sheetName \<mapsto> {})\<rparr>)"

fun reviewRules ::
  "(string \<times> string list) list \<Rightarrow> nat \<Rightarrow> rowData \<Rightarrow> string list \<Rightarrow> state \<Rightarrow> error + state" where
  \<comment> \<open>Lines 148-165, the pair \<open>(sheetName, kws)\<close> being the key of the \<open>for ... in\<close> and
      \<open>GROUPING_RULES[sheetName]\<close>. Reading \<open>.has\<close> or \<open>.push\<close> of a missing entry
      would throw.\<close>
  "reviewRules [] i r tags st = Inr st"
| "reviewRules ((sheetName, kws) # rules) i r tags st =
     (let keywords = map toLowerCase kws in
      if matchFound keywords tags then
        (case processedRowIndicesBySheet st sheetName of
           None \<Rightarrow> Inl TypeError
         | Some seen \<Rightarrow>
             if i \<notin> seen then
               (case outputData st sheetName of
                  None \<Rightarrow> Inl TypeError
                | Some rows \<Rightarrow>
                    reviewRules rules i r tags
                      (st\<lparr>outputData := (outputData st)(sheetName \<mapsto> rows @ [r]),
                          processedRowIndicesBySheet :=
                            (processedRowIndicesBySheet st)(sheetName \<mapsto> insert i seen)\<rparr>))
             else reviewRules rules i r tags st)
      else reviewRules rules i r tags st)"

definition loopBody ::
  "(string \<times> string list) list \<Rightarrow> colIndices \<Rightarrow> nat \<Rightarrow> string list \<Rightarrow> state \<Rightarrow> error + state" where
  \<comment> \<open>Lines 108-165, one iteration of the loop over the rows.\<close>
  "loopBody rules colIndices i originalRow st =
     (case filterTransformParse originalRow colIndices of
        Inl e \<Rightarrow> Inl e
      | Inr Skip \<Rightarrow> Inr st
      | Inr (Tagged r tags) \<Rightarrow> reviewRules rules i r tags st)"

fun rowLoop ::
  "(string \<times> string list) list \<Rightarrow> colIndices \<Rightarrow> nat \<Rightarrow> string list list \<Rightarrow> state \<Rightarrow> error + state" where
  \<comment> \<open>Line 107: \<open>for (let i = ...; i < data.length; i++)\<close> over the rows from index
      \<open>i\<close> on.\<close>
  "rowLoop rules colIndices i [] st = Inr st"
| "rowLoop rules colIndices i (originalRow # rest) st =
     (case loopBody rules colIndices i originalRow st of
        Inl e \<Rightarrow> Inl e
      | Inr st' \<Rightarrow> rowLoop rules colIndices (Suc i) rest st')"

definition finalState :: "string list list \<Rightarrow> colIndices \<Rightarrow> error + state" where
  \<comment> \<open>The two local objects when the loop over the rows is left.\<close>
  "finalState data colIndices =
     rowLoop GROUPING_RULES colIndices 1 (drop 1 data)
       (initialize GROUPING_RULES
          \<lparr>outputData = Map.empty, processedRowIndicesBySheet = Map.empty\<rparr>)"

definition processData :: "string list list \<Rightarrow> colIndices \<Rightarrow> error + (string \<rightharpoonup> rowData list)" where
  \<comment> \<open>Lines 94-168: \<open>return outputData\<close>, or the exception that left the loop.\<close>
  "processData data colIndices =
     (case finalState data colIndices of
        Inl e \<Rightarrow> Inl e
      | Inr st \<Rightarrow> Inr (outputData st))"

section \<open>The same lines with the arrays held by reference\<close>

text \<open>
  \<open>data[i]\<close> is a reference to an array, and \<open>[...originalRow]\<close> allocates a new one.
  Here the arrays live in a store, a reference being a position of the store: the copy is
  appended to the store, and a write \<open>rowData[k] = v\<close> updates the store at the
  reference \<open>rowData\<close>. The result is the reference of the copy with the final tag string
  (\<open>None\<close> for the \<open>continue\<close> of the publish filter) and the store.
\<close>

type_synonym store = "rowData list"

definition filterTransform_store ::
  "store \<Rightarrow> nat \<Rightarrow> colIndices \<Rightarrow> error + ((nat \<times> string) option \<times> store)" where
  \<comment> \<open>Lines 108-130. Spreading what is not an array throws.\<close>
  "filterTransform_store h originalRow colIndices =
     (if length h \<le> originalRow then Inl TypeError else
      let rowData = length h;
          h0 = h @ [\<lparr>elems = elems (h ! originalRow), undefinedProp = None\<rparr>] in
      case toString (getCell (h0 ! rowData) (colIndices PUBLICABLE_COL_NAME)) of
        Inl e \<Rightarrow> Inl e
      | Inr p \<Rightarrow>
          if toUpperCase (trim p) = codeUnits ''NO'' then Inr (None, h0)
          else (case toString (getCell (h0 ! rowData) (colIndices RESPUESTA_ACT_COL_NAME)) of
            Inl e \<Rightarrow> Inl e
          | Inr a \<Rightarrow>
              (let respuestaActualizada = trim a;
                   h1 = (if respuestaActualizada \<noteq> [] then
                           h0[rowData := setCell (h0 ! rowData) (colIndices RESPUESTA_COL_NAME)
                                           respuestaActualizada]
                         else h0) in
               case toString (getCell (h1 ! rowData) (colIndices ETIQUETA_PROP_COL_NAME)) of
                 Inl e \<Rightarrow> Inl e
               | Inr t \<Rightarrow>
                   (let etiquetaPropuesta = trim t;
                        h2 = (if etiquetaPropuesta \<noteq> [] then
                                h1[rowData := setCell (h1 ! rowData)
                                                (colIndices ETIQUETA_ORIG_COL_NAME) etiquetaPropuesta]
                              else h1) in
                    case toString (getCell (h2 ! rowData) (colIndices ETIQUETA_ORIG_COL_NAME)) of
                      Inl e \<Rightarrow> Inl e
                    | Inr f \<Rightarrow> Inr (Some (rowData, trim f), h2)))))"

section \<open>The run up to the classifier\<close>

definition requiredCols :: "string list" where
  "requiredCols = [PUBLICABLE_COL_NAME, RESPUESTA_COL_NAME, RESPUESTA_ACT_COL_NAME,
                   ETIQUETA_ORIG_COL_NAME, ETIQUETA_PROP_COL_NAME]"

fun firstUndefined :: "colIndices \<Rightarrow> string list \<Rightarrow> string option" where
  \<comment> \<open>Lines 53-58: the first required name whose index is \<open>undefined\<close>, if any.\<close>
  "firstUndefined colIndices [] = None"
| "firstUndefined colIndices (colName # rest) =
     (if colIndices colName = None then Some colName else firstUndefined colIndices rest)"

datatype outcome =
    AlertSheetNotFound
  | AlertSheetEmpty
  | AlertColumnNotFound string
  | Thrown error
  | Categorized "string \<rightharpoonup> rowData list"

definition processAndCreateSheetsAndDocs :: "string list list option \<Rightarrow> outcome" where
  \<comment> \<open>Lines 30-61. The argument is the sheet \<open>Principal\<close>: \<open>None\<close> when the spreadsheet has
      none, otherwise the values of its data range. The result is the alert shown before an
      early \<open>return\<close>, or what \<open>processData\<close> hands to the stages that write sheets and
      documents.\<close>
  "processAndCreateSheetsAndDocs principalSheet =
     (case principalSheet of
        None \<Rightarrow> AlertSheetNotFound
      | Some principalData \<Rightarrow>
          if length principalData < 2 then AlertSheetEmpty
          else (let headers = hd principalData;
                    colIndices = findColumnHeaders headers in
                case firstUndefined colIndices requiredCols of
                  Some colName \<Rightarrow> AlertColumnNotFound colName
                | None \<Rightarrow>
                    (case processData principalData colIndices of
                       Inl e \<Rightarrow> Thrown e
                     | Inr categorizedData \<Rightarrow> Categorized categorizedData)))"

section \<open>What a row contributes to a category\<close>

definition assignedCopy :: "colIndices \<Rightarrow> string list \<Rightarrow> string list \<Rightarrow> rowData option" where
  \<comment> \<open>The copy that one source row owes to the bucket of a category with the keywords
      \<open>kws\<close>: the transformed copy when the row is kept and one of its tags holds one of the
      lower-cased keywords, nothing otherwise.\<close>
  "assignedCopy colIndices kws originalRow =
     (case filterTransformParse originalRow colIndices of
        Inr (Tagged r tags) \<Rightarrow> if matchFound (map toLowerCase kws) tags then Some r else None
      | _ \<Rightarrow> None)"

fun assignedIndices :: "colIndices \<Rightarrow> string list \<Rightarrow> nat \<Rightarrow> string list list \<Rightarrow> nat list" where
  \<comment> \<open>The indices, counted from \<open>i\<close>, of the rows that owe a copy to that bucket.\<close>
  "assignedIndices colIndices kws i [] = []"
| "assignedIndices colIndices kws i (originalRow # rest) =
     (if assignedCopy colIndices kws originalRow \<noteq> None then [i] else [])
       @ assignedIndices colIndices kws (Suc i) rest"

definition throws :: "colIndices \<Rightarrow> string list list \<Rightarrow> bool" where
  \<comment> \<open>Some row makes the loop body throw.\<close>
  "throws colIndices rows = list_ex (\<lambda>row. isl (filterTransformParse row colIndices)) rows"

definition withoutRow :: "nat \<Rightarrow> string list list \<Rightarrow> string list list" where
  \<comment> \<open>The sheet with its row \<open>i\<close> taken out.\<close>
  "withoutRow i data = take i data @ drop (Suc i) data"

definition full :: "nat \<Rightarrow> rowData \<Rightarrow> bool" where
  \<comment> \<open>An array of \<open>n\<close> elements, none of them \<open>undefined\<close>.\<close>
  "full n r \<longleftrightarrow> length (elems r) = n \<and> None \<notin> set (elems r)"

section \<open>An example sheet\<close>

definition exampleHeaders :: "string list" where
  "exampleHeaders =
     [''Publicable'', ''Respuesta '', ''Respuesta Actualizada'', ''Etiqueta Original'',
      '' Etiqueta Propuesta'']"

definition exampleData :: "string list list" where
  "exampleData =
     [exampleHeaders,
      [''SI'', ''old'', ''new answer'', ''Beca'', ''''],
      ['' no '', ''old'', ''new answer'', ''Beca'', ''''],
      [''SI'', ''a'', '''', ''Sedes'', ''Inscripci'' @ [CHR 0xF3] @ ''n abierta; Varios temas''],
      [''SI'', ''a'', '''', ''Ingreso'', '' sedes ''],
      [''SI'', ''a'', '' '', ''Ingreso;Sedes'', ''''],
      [''SI'', ''a'', '''', '' ; ;'', '' ''],
      [''SI'', ''a'', '''', ''ingreso;ingresantes'', '''']]"

definition exampleIndices :: colIndices where
  "exampleIndices = findColumnHeaders exampleHeaders"

definition exampleCopy :: "nat \<Rightarrow> rowData" where
  \<comment> \<open>The copies of the rows 1, 3, 5 and 7 after the two overwrites.\<close>
  "exampleCopy i =
     (if i = 1 then spread [''SI'', ''new answer'', ''new answer'', ''Beca'', '''']
      else if i = 3 then
        spread [''SI'', ''a'', '''', ''Inscripci'' @ [CHR 0xF3] @ ''n abierta; Varios temas'',
                ''Inscripci'' @ [CHR 0xF3] @ ''n abierta; Varios temas'']
      else if i = 5 then spread [''SI'', ''a'', '' '', ''Ingreso;Sedes'', '''']
      else spread [''SI'', ''a'', '''', ''ingreso;ingresantes'', ''''])"

definition exampleState :: state where
  "exampleState =
     \<lparr>outputData =
        [''FAQ_Ingresantes'' \<mapsto> [exampleCopy 1, exampleCopy 3, exampleCopy 5, exampleCopy 7],
         ''FAQ_Alumnos_Examen'' \<mapsto> [],
         ''FAQ_Tramites_Equivalencias_SAG'' \<mapsto> [],
         ''FAQ_Preguntas_frecuentes_generales'' \<mapsto> [exampleCopy 3]],
      processedRowIndicesBySheet =
        [''FAQ_Ingresantes'' \<mapsto> {1, 3, 5, 7},
         ''FAQ_Alumnos_Examen'' \<mapsto> {},
         ''FAQ_Tramites_Equivalencias_SAG'' \<mapsto> {},
         ''FAQ_Preguntas_frecuentes_generales'' \<mapsto> {3}]\<rparr>"

section \<open>Substring matching\<close>

lemma includes_str_iff: "includes_str tag keyword \<longleftrightarrow> (\<exists>ps ss. tag = ps @ keyword @ ss)"
proof (induction tag)
  case Nil
  then show ?case by auto
next
  case (Cons c cs)
  show ?case
  proof
    assume "includes_str (c # cs) keyword"
    then consider "prefix keyword (c # cs)" | "includes_str cs keyword" by auto
    then show "\<exists>ps ss. c # cs = ps @ keyword @ ss"
    proof cases
      case 1
      then obtain ss where "c # cs = keyword @ ss" by (auto simp: prefix_def)
      then have "c # cs = [] @ keyword @ ss" by simp
      then show ?thesis by blast
    next
      case 2
      with Cons.IH obtain ps ss where "cs = ps @ keyword @ ss" by blast
      then have "c # cs = (c # ps) @ keyword @ ss" by simp
      then show ?thesis by blast
    qed
  next
    assume "\<exists>ps ss. c # cs = ps @ keyword @ ss"
    then obtain ps ss where eq: "c # cs = ps @ keyword @ ss" by blast
    show "includes_str (c # cs) keyword"
    proof (cases ps)
      case Nil
      with eq have "prefix keyword (c # cs)" by (simp add: prefix_def)
      then show ?thesis by simp
    next
      case (Cons p ps')
      with eq have "cs = ps' @ keyword @ ss" by simp
      with Cons.IH have "includes_str cs keyword" by blast
      then show ?thesis by simp
    qed
  qed
qed

lemma matchFound_iff:
  "matchFound keywords tags \<longleftrightarrow> (\<exists>tag\<in>set tags. \<exists>keyword\<in>set keywords. includes_str tag keyword)"
  by (induction tags) (auto simp: list_ex_iff)

section \<open>Strings and cells\<close>

lemma dropWhile_rev_dropWhile:
  "dropWhile P (rev (dropWhile P (rev (dropWhile P s)))) = rev (dropWhile P (rev (dropWhile P s)))"
proof (cases "rev (dropWhile P (rev (dropWhile P s)))")
  case Nil
  then show ?thesis by (simp only: dropWhile.simps)
next
  case (Cons c cs)
  let ?t = "dropWhile P s"
  have "rev (dropWhile P (rev ?t)) = c # cs" using Cons .
  have t: "?t = rev (takeWhile P (rev ?t) @ dropWhile P (rev ?t))" by simp
  then have "?t = rev (dropWhile P (rev ?t)) @ rev (takeWhile P (rev ?t))" by (simp only: rev_append)
  then have "?t = (c # cs) @ rev (takeWhile P (rev ?t))" using Cons by simp
  then have "hd ?t = c" "?t \<noteq> []" by (metis append_Cons list.sel(1), metis append_Cons list.distinct(1))
  then have "\<not> P c" using hd_dropWhile by metis
  then show ?thesis using Cons by simp
qed

lemma trim_trim: "trim (trim s) = trim s"
proof -
  let ?u = "dropWhile isWhiteSpace (rev (dropWhile isWhiteSpace s))"
  have 1: "dropWhile isWhiteSpace (rev ?u) = rev ?u" by (rule dropWhile_rev_dropWhile)
  have 2: "dropWhile isWhiteSpace ?u = ?u" by (simp add: dropWhile_idem)
  show ?thesis by (simp add: trim_def 1 2)
qed

lemma split_nonempty: "split sep s \<noteq> []"
  by (induction s) (auto split: list.split)

lemma join_split: "join sep (split sep s) = s"
proof (induction s)
  case Nil
  then show ?case by simp
next
  case (Cons c cs)
  obtain p ps where ps: "split sep cs = p # ps" using split_nonempty by (cases "split sep cs") auto
  show ?case
  proof (cases "c = sep")
    case True
    then show ?thesis using Cons ps by simp
  next
    case False
    then show ?thesis using Cons ps by (cases ps) auto
  qed
qed

lemma split_no_sep: "p \<in> set (split sep s) \<Longrightarrow> sep \<notin> set p"
proof (induction s arbitrary: p)
  case Nil
  then show ?case by simp
next
  case (Cons c cs)
  obtain q qs where qs: "split sep cs = q # qs" using split_nonempty by (cases "split sep cs") auto
  show ?case
  proof (cases "c = sep")
    case True
    then show ?thesis using Cons qs by auto
  next
    case False
    with Cons.prems qs have "p = c # q \<or> p \<in> set qs" by auto
    then show ?thesis using Cons.IH qs False by auto
  qed
qed

lemma getCell_setCell_same: "getCell (setCell r k v) k = Some v"
  by (cases k) (auto simp: getCell_def setCell_def nth_append)

lemma getCell_setCell_other: "k' \<noteq> k \<Longrightarrow> getCell (setCell r k v) k' = getCell r k'"
  by (cases k; cases k') (auto simp: getCell_def setCell_def nth_append nth_Cons' )

lemma split_no_sep_id: "sep \<notin> set p \<Longrightarrow> split sep p = [p]"
  by (induction p) auto

lemma split_append_sep: "sep \<notin> set p \<Longrightarrow> split sep (p @ sep # s) = p # split sep s"
  by (induction p) auto

lemma split_join:
  assumes "pieces \<noteq> []" "\<forall>p\<in>set pieces. sep \<notin> set p"
  shows "split sep (join sep pieces) = pieces"
  using assms
proof (induction sep pieces rule: join.induct)
  case (1 sep)
  then show ?case by simp
next
  case (2 sep p)
  then show ?case by (simp add: split_no_sep_id)
next
  case (3 sep p q ps)
  then show ?case by (simp add: split_append_sep)
qed

section \<open>The header index: the last cell that trims to a name gives its position\<close>

lemma forEachHeader_snoc:
  "forEachHeader (hs @ [h]) i m = assignIndex (forEachHeader hs i m) (trim h) (i + length hs)"
  by (induction hs arbitrary: i m) auto

lemma findColumnHeaders_snoc:
  "findColumnHeaders (hs @ [h]) = assignIndex (findColumnHeaders hs) (trim h) (length hs)"
  by (simp add: findColumnHeaders_def forEachHeader_snoc)

lemma findColumnHeaders_proto: "findColumnHeaders hs ''__proto__'' = None"
proof (induction hs rule: rev_induct)
  case Nil
  then show ?case by (simp add: findColumnHeaders_def)
next
  case (snoc h hs)
  then show ?case by (simp add: findColumnHeaders_snoc assignIndex_def)
qed

lemma findColumnHeaders_Some_iff:
  assumes "n \<noteq> ''__proto__''"
  shows "findColumnHeaders hs n = Some k \<longleftrightarrow>
           k < length hs \<and> trim (hs ! k) = n \<and> (\<forall>j. k < j \<and> j < length hs \<longrightarrow> trim (hs ! j) \<noteq> n)"
proof (induction hs rule: rev_induct)
  case Nil
  then show ?case by (simp add: findColumnHeaders_def)
next
  case (snoc h hs)
  show ?case
  proof (cases "trim h = n")
    case True
    have "findColumnHeaders (hs @ [h]) n = Some (length hs)"
      using True assms by (simp add: findColumnHeaders_snoc assignIndex_def)
    moreover have "(k < length (hs @ [h]) \<and> trim ((hs @ [h]) ! k) = n \<and>
        (\<forall>j. k < j \<and> j < length (hs @ [h]) \<longrightarrow> trim ((hs @ [h]) ! j) \<noteq> n)) \<longleftrightarrow> k = length hs"
    proof
      assume a: "k < length (hs @ [h]) \<and> trim ((hs @ [h]) ! k) = n \<and>
        (\<forall>j. k < j \<and> j < length (hs @ [h]) \<longrightarrow> trim ((hs @ [h]) ! j) \<noteq> n)"
      show "k = length hs"
      proof (rule ccontr)
        assume "k \<noteq> length hs"
        with a have "k < length hs" by simp
        moreover from a have "\<forall>j. k < j \<and> j < length (hs @ [h]) \<longrightarrow> trim ((hs @ [h]) ! j) \<noteq> n"
          by blast
        then have "k < length hs \<and> length hs < length (hs @ [h]) \<longrightarrow> trim ((hs @ [h]) ! length hs) \<noteq> n"
          by blast
        ultimately have "trim ((hs @ [h]) ! length hs) \<noteq> n" by simp
        then show False using True by simp
      qed
    next
      assume "k = length hs"
      then show "k < length (hs @ [h]) \<and> trim ((hs @ [h]) ! k) = n \<and>
        (\<forall>j. k < j \<and> j < length (hs @ [h]) \<longrightarrow> trim ((hs @ [h]) ! j) \<noteq> n)"
        using True by auto
    qed
    ultimately show ?thesis by auto
  next
    case False
    have eq: "findColumnHeaders (hs @ [h]) n = findColumnHeaders hs n"
      using False by (simp add: findColumnHeaders_snoc assignIndex_def)
    have "(k < length (hs @ [h]) \<and> trim ((hs @ [h]) ! k) = n \<and>
        (\<forall>j. k < j \<and> j < length (hs @ [h]) \<longrightarrow> trim ((hs @ [h]) ! j) \<noteq> n)) \<longleftrightarrow>
        (k < length hs \<and> trim (hs ! k) = n \<and> (\<forall>j. k < j \<and> j < length hs \<longrightarrow> trim (hs ! j) \<noteq> n))"
      (is "?L \<longleftrightarrow> ?R")
    proof
      assume l: ?L
      then have "k \<noteq> length hs" using False by auto
      with l have kl: "k < length hs" by simp
      moreover from l kl have "trim (hs ! k) = n" by (simp add: nth_append)
      moreover have "\<forall>j. k < j \<and> j < length hs \<longrightarrow> trim (hs ! j) \<noteq> n"
      proof (intro allI impI)
        fix j assume j: "k < j \<and> j < length hs"
        then have "trim ((hs @ [h]) ! j) \<noteq> n" using l by simp
        then show "trim (hs ! j) \<noteq> n" using j by (simp add: nth_append)
      qed
      ultimately show ?R by blast
    next
      assume r: ?R
      then have "k < length (hs @ [h])" by simp
      moreover from r have "trim ((hs @ [h]) ! k) = n" by (simp add: nth_append)
      moreover have "\<forall>j. k < j \<and> j < length (hs @ [h]) \<longrightarrow> trim ((hs @ [h]) ! j) \<noteq> n"
      proof (intro allI impI)
        fix j assume j: "k < j \<and> j < length (hs @ [h])"
        show "trim ((hs @ [h]) ! j) \<noteq> n"
        proof (cases "j = length hs")
          case True
          then show ?thesis using False by simp
        next
          case False
          with j have "j < length hs" by simp
          then show ?thesis using r j by (simp add: nth_append)
        qed
      qed
      ultimately show ?L by blast
    qed
    then show ?thesis using snoc eq by simp
  qed
qed

lemma findColumnHeaders_None_iff:
  assumes "n \<noteq> ''__proto__''"
  shows "findColumnHeaders hs n = None \<longleftrightarrow> n \<notin> set (map trim hs)"
proof (induction hs rule: rev_induct)
  case Nil
  then show ?case by (simp add: findColumnHeaders_def)
next
  case (snoc h hs)
  then show ?case using assms by (auto simp: findColumnHeaders_snoc assignIndex_def)
qed

lemma findColumnHeaders_position:
  assumes "findColumnHeaders hs n = Some k"
  shows "k < length hs \<and> trim (hs ! k) = n"
proof -
  from assms have "n \<noteq> ''__proto__''" using findColumnHeaders_proto by auto
  from findColumnHeaders_Some_iff[OF this] assms show ?thesis by blast
qed

lemma findColumnHeaders_inj:
  assumes "findColumnHeaders hs a \<noteq> None" "a \<noteq> b"
  shows "findColumnHeaders hs a \<noteq> findColumnHeaders hs b"
proof
  assume eq: "findColumnHeaders hs a = findColumnHeaders hs b"
  from assms(1) obtain k where k: "findColumnHeaders hs a = Some k" by auto
  with eq have "findColumnHeaders hs b = Some k" by simp
  with k have "trim (hs ! k) = a" "trim (hs ! k) = b"
    using findColumnHeaders_position by blast+
  with assms(2) show False by simp
qed

section \<open>The loop over the rules and the loop over the rows\<close>

lemma reviewRules_ok:
  assumes "distinct (map fst rules)"
    and "\<forall>n\<in>fst ` set rules. \<exists>rows seen. outputData st n = Some rows \<and>
            processedRowIndicesBySheet st n = Some seen \<and> i \<notin> seen"
  shows "\<exists>st'. reviewRules rules i r tags st = Inr st' \<and>
     (\<forall>n. outputData st' n = (case map_of rules n of
               None \<Rightarrow> outputData st n
             | Some kws \<Rightarrow> if matchFound (map toLowerCase kws) tags
                           then map_option (\<lambda>rows. rows @ [r]) (outputData st n)
                           else outputData st n)) \<and>
     (\<forall>n. processedRowIndicesBySheet st' n = (case map_of rules n of
               None \<Rightarrow> processedRowIndicesBySheet st n
             | Some kws \<Rightarrow> if matchFound (map toLowerCase kws) tags
                           then map_option (insert i) (processedRowIndicesBySheet st n)
                           else processedRowIndicesBySheet st n))"
  using assms
proof (induction rules arbitrary: st)
  case Nil
  then show ?case by simp
next
  case (Cons rule rules)
  obtain n0 kws0 where rule: "rule = (n0, kws0)" by (cases rule)
  from Cons.prems(1) rule have dist: "distinct (map fst rules)" and fresh: "n0 \<notin> fst ` set rules"
    by auto
  from fresh have mo: "map_of rules n0 = None" by (simp add: map_of_eq_None_iff)
  from Cons.prems(2) rule obtain rows0 seen0 where
    st0: "outputData st n0 = Some rows0" "processedRowIndicesBySheet st n0 = Some seen0" "i \<notin> seen0"
    by auto
  show ?case
  proof (cases "matchFound (map toLowerCase kws0) tags")
    case False
    from Cons.prems(2) have pre: "\<forall>n\<in>fst ` set rules. \<exists>rows seen. outputData st n = Some rows \<and>
            processedRowIndicesBySheet st n = Some seen \<and> i \<notin> seen" by auto
    from Cons.IH[OF dist pre] obtain st' where
      r: "reviewRules rules i r tags st = Inr st'"
      and o: "\<forall>n. outputData st' n = (case map_of rules n of
               None \<Rightarrow> outputData st n
             | Some kws \<Rightarrow> if matchFound (map toLowerCase kws) tags
                           then map_option (\<lambda>rows. rows @ [r]) (outputData st n)
                           else outputData st n)"
      and p: "\<forall>n. processedRowIndicesBySheet st' n = (case map_of rules n of
               None \<Rightarrow> processedRowIndicesBySheet st n
             | Some kws \<Rightarrow> if matchFound (map toLowerCase kws) tags
                           then map_option (insert i) (processedRowIndicesBySheet st n)
                           else processedRowIndicesBySheet st n)" by blast
    have "reviewRules (rule # rules) i r tags st = Inr st'"
      using False r rule by simp
    moreover have "\<forall>n. outputData st' n = (case map_of (rule # rules) n of
               None \<Rightarrow> outputData st n
             | Some kws \<Rightarrow> if matchFound (map toLowerCase kws) tags
                           then map_option (\<lambda>rows. rows @ [r]) (outputData st n)
                           else outputData st n)"
      using o False mo rule by auto
    moreover have "\<forall>n. processedRowIndicesBySheet st' n = (case map_of (rule # rules) n of
               None \<Rightarrow> processedRowIndicesBySheet st n
             | Some kws \<Rightarrow> if matchFound (map toLowerCase kws) tags
                           then map_option (insert i) (processedRowIndicesBySheet st n)
                           else processedRowIndicesBySheet st n)"
      using p False mo rule by auto
    ultimately show ?thesis by blast
  next
    case True
    define st2 where "st2 = st\<lparr>outputData := (outputData st)(n0 \<mapsto> rows0 @ [r]),
                          processedRowIndicesBySheet :=
                            (processedRowIndicesBySheet st)(n0 \<mapsto> insert i seen0)\<rparr>"
    have pre: "\<forall>n\<in>fst ` set rules. \<exists>rows seen. outputData st2 n = Some rows \<and>
            processedRowIndicesBySheet st2 n = Some seen \<and> i \<notin> seen"
      using Cons.prems(2) fresh by (auto simp: st2_def)
    from Cons.IH[OF dist pre] obtain st' where
      r: "reviewRules rules i r tags st2 = Inr st'"
      and o: "\<forall>n. outputData st' n = (case map_of rules n of
               None \<Rightarrow> outputData st2 n
             | Some kws \<Rightarrow> if matchFound (map toLowerCase kws) tags
                           then map_option (\<lambda>rows. rows @ [r]) (outputData st2 n)
                           else outputData st2 n)"
      and p: "\<forall>n. processedRowIndicesBySheet st' n = (case map_of rules n of
               None \<Rightarrow> processedRowIndicesBySheet st2 n
             | Some kws \<Rightarrow> if matchFound (map toLowerCase kws) tags
                           then map_option (insert i) (processedRowIndicesBySheet st2 n)
                           else processedRowIndicesBySheet st2 n)" by blast
    have "reviewRules (rule # rules) i r tags st = Inr st'"
      using True r rule st0 by (simp add: st2_def)
    moreover have "\<forall>n. outputData st' n = (case map_of (rule # rules) n of
               None \<Rightarrow> outputData st n
             | Some kws \<Rightarrow> if matchFound (map toLowerCase kws) tags
                           then map_option (\<lambda>rows. rows @ [r]) (outputData st n)
                           else outputData st n)"
    proof
      fix n
      show "outputData st' n = (case map_of (rule # rules) n of
               None \<Rightarrow> outputData st n
             | Some kws \<Rightarrow> if matchFound (map toLowerCase kws) tags
                           then map_option (\<lambda>rows. rows @ [r]) (outputData st n)
                           else outputData st n)"
      proof (cases "n = n0")
        case True
        then show ?thesis using o mo rule st0 \<open>matchFound (map toLowerCase kws0) tags\<close>
          by (simp add: st2_def)
      next
        case False
        then have "outputData st2 n = outputData st n" by (simp add: st2_def)
        then show ?thesis using o False rule by (simp split: option.split)
      qed
    qed
    moreover have "\<forall>n. processedRowIndicesBySheet st' n = (case map_of (rule # rules) n of
               None \<Rightarrow> processedRowIndicesBySheet st n
             | Some kws \<Rightarrow> if matchFound (map toLowerCase kws) tags
                           then map_option (insert i) (processedRowIndicesBySheet st n)
                           else processedRowIndicesBySheet st n)"
    proof
      fix n
      show "processedRowIndicesBySheet st' n = (case map_of (rule # rules) n of
               None \<Rightarrow> processedRowIndicesBySheet st n
             | Some kws \<Rightarrow> if matchFound (map toLowerCase kws) tags
                           then map_option (insert i) (processedRowIndicesBySheet st n)
                           else processedRowIndicesBySheet st n)"
      proof (cases "n = n0")
        case True
        then show ?thesis using p mo rule st0 \<open>matchFound (map toLowerCase kws0) tags\<close>
          by (simp add: st2_def)
      next
        case False
        then have "processedRowIndicesBySheet st2 n = processedRowIndicesBySheet st n" by (simp add: st2_def)
        then show ?thesis using p False rule by (simp split: option.split)
      qed
    qed
    ultimately show ?thesis by blast
  qed
qed

lemma error_eq: "(e::error) = TypeError" by (cases e) simp

lemma initialize_outputData:
  "outputData (initialize rules st) n = (if n \<in> fst ` set rules then Some [] else outputData st n)"
  by (induction rules st rule: initialize.induct) auto

lemma initialize_processed:
  "processedRowIndicesBySheet (initialize rules st) n =
     (if n \<in> fst ` set rules then Some {} else processedRowIndicesBySheet st n)"
  by (induction rules st rule: initialize.induct) auto

lemma map_of_assigned:
  assumes "map_of rules n = Some kws"
  shows "n \<in> fst ` set rules"
  using assms by (metis domI dom_map_of_conv_image_fst)

lemma rowLoop_throws:
  assumes "distinct (map fst rules)"
    and "\<forall>n\<in>fst ` set rules. \<exists>rows seen. outputData st n = Some rows \<and>
            processedRowIndicesBySheet st n = Some seen \<and> (\<forall>j\<in>seen. j < i)"
    and "throws c rows"
  shows "rowLoop rules c i rows st = Inl TypeError"
  using assms
proof (induction rows arbitrary: i st)
  case Nil
  then show ?case by (simp add: throws_def)
next
  case (Cons row rest)
  show ?case
  proof (cases "filterTransformParse row c")
    case (Inl e)
    then show ?thesis by (simp add: loopBody_def error_eq)
  next
    case (Inr s)
    with Cons.prems(3) have th: "throws c rest" by (simp add: throws_def)
    show ?thesis
    proof (cases s)
      case Skip
      have "\<forall>n\<in>fst ` set rules. \<exists>rows seen. outputData st n = Some rows \<and>
            processedRowIndicesBySheet st n = Some seen \<and> (\<forall>j\<in>seen. j < Suc i)"
        using Cons.prems(2) by (meson less_Suc_eq)
      from Cons.IH[OF Cons.prems(1) this th] show ?thesis
        using Inr Skip by (simp add: loopBody_def)
    next
      case (Tagged r tags)
      have pre: "\<forall>n\<in>fst ` set rules. \<exists>rows seen. outputData st n = Some rows \<and>
            processedRowIndicesBySheet st n = Some seen \<and> i \<notin> seen"
        using Cons.prems(2) by (meson less_irrefl)
      from reviewRules_ok[OF Cons.prems(1) pre, of r tags] obtain st' where
        r: "reviewRules rules i r tags st = Inr st'"
        and o: "\<forall>n. outputData st' n = (case map_of rules n of
               None \<Rightarrow> outputData st n
             | Some kws \<Rightarrow> if matchFound (map toLowerCase kws) tags
                           then map_option (\<lambda>rows. rows @ [r]) (outputData st n)
                           else outputData st n)"
        and p: "\<forall>n. processedRowIndicesBySheet st' n = (case map_of rules n of
               None \<Rightarrow> processedRowIndicesBySheet st n
             | Some kws \<Rightarrow> if matchFound (map toLowerCase kws) tags
                           then map_option (insert i) (processedRowIndicesBySheet st n)
                           else processedRowIndicesBySheet st n)" by blast
      have inv': "\<forall>n\<in>fst ` set rules. \<exists>rows seen. outputData st' n = Some rows \<and>
            processedRowIndicesBySheet st' n = Some seen \<and> (\<forall>j\<in>seen. j < Suc i)"
      proof
        fix n assume n: "n \<in> fst ` set rules"
        with Cons.prems(2) obtain rows seen where
          s: "outputData st n = Some rows" "processedRowIndicesBySheet st n = Some seen" "\<forall>j\<in>seen. j < i"
          by blast
        from s(3) have "\<forall>j\<in>seen. j < Suc i" "\<forall>j\<in>insert i seen. j < Suc i" by auto
        then show "\<exists>rows seen. outputData st' n = Some rows \<and>
            processedRowIndicesBySheet st' n = Some seen \<and> (\<forall>j\<in>seen. j < Suc i)"
          using o p s(1,2) by (auto split: option.split)
      qed
      from Cons.IH[OF Cons.prems(1) inv' th] show ?thesis
        using Inr Tagged r by (simp add: loopBody_def)
    qed
  qed
qed

lemma rowLoop_ok:
  assumes "distinct (map fst rules)"
    and "\<forall>n\<in>fst ` set rules. \<exists>rows seen. outputData st n = Some rows \<and>
            processedRowIndicesBySheet st n = Some seen \<and> (\<forall>j\<in>seen. j < i)"
    and "\<not> throws c rows"
  shows "\<exists>st'. rowLoop rules c i rows st = Inr st' \<and>
     (\<forall>n. outputData st' n = (case map_of rules n of
               None \<Rightarrow> outputData st n
             | Some kws \<Rightarrow> map_option (\<lambda>old. old @ List.map_filter (assignedCopy c kws) rows)
                             (outputData st n))) \<and>
     (\<forall>n. processedRowIndicesBySheet st' n = (case map_of rules n of
               None \<Rightarrow> processedRowIndicesBySheet st n
             | Some kws \<Rightarrow> map_option (\<lambda>seen. seen \<union> set (assignedIndices c kws i rows))
                             (processedRowIndicesBySheet st n)))"
  using assms
proof (induction rows arbitrary: i st)
  case Nil
  then show ?case by (simp add: List.map_filter_simps option.map_ident split: option.split)
next
  case (Cons row rest)
  from Cons.prems(3) obtain s where s: "filterTransformParse row c = Inr s"
    and th: "\<not> throws c rest"
    by (cases "filterTransformParse row c") (auto simp: throws_def)
  show ?case
  proof (cases s)
    case Skip
    have inv': "\<forall>n\<in>fst ` set rules. \<exists>rows seen. outputData st n = Some rows \<and>
          processedRowIndicesBySheet st n = Some seen \<and> (\<forall>j\<in>seen. j < Suc i)"
      using Cons.prems(2) by (meson less_Suc_eq)
    have none: "\<And>kws. assignedCopy c kws row = None"
      using s Skip by (simp add: assignedCopy_def)
    from Cons.IH[OF Cons.prems(1) inv' th] obtain st' where
      "rowLoop rules c (Suc i) rest st = Inr st'"
      and "\<forall>n. outputData st' n = (case map_of rules n of
               None \<Rightarrow> outputData st n
             | Some kws \<Rightarrow> map_option (\<lambda>old. old @ List.map_filter (assignedCopy c kws) rest)
                             (outputData st n))"
      and "\<forall>n. processedRowIndicesBySheet st' n = (case map_of rules n of
               None \<Rightarrow> processedRowIndicesBySheet st n
             | Some kws \<Rightarrow> map_option (\<lambda>seen. seen \<union> set (assignedIndices c kws (Suc i) rest))
                             (processedRowIndicesBySheet st n))" by blast
    then show ?thesis
      using s Skip none by (simp add: loopBody_def List.map_filter_simps split: option.split)
  next
    case (Tagged r tags)
    have cp: "\<And>kws. assignedCopy c kws row =
                (if matchFound (map toLowerCase kws) tags then Some r else None)"
      using s Tagged by (simp add: assignedCopy_def)
    have pre: "\<forall>n\<in>fst ` set rules. \<exists>rows seen. outputData st n = Some rows \<and>
          processedRowIndicesBySheet st n = Some seen \<and> i \<notin> seen"
      using Cons.prems(2) by (meson less_irrefl)
    from reviewRules_ok[OF Cons.prems(1) pre, of r tags] obtain st1 where
      r: "reviewRules rules i r tags st = Inr st1"
      and o: "\<forall>n. outputData st1 n = (case map_of rules n of
             None \<Rightarrow> outputData st n
           | Some kws \<Rightarrow> if matchFound (map toLowerCase kws) tags
                         then map_option (\<lambda>rows. rows @ [r]) (outputData st n)
                         else outputData st n)"
      and p: "\<forall>n. processedRowIndicesBySheet st1 n = (case map_of rules n of
             None \<Rightarrow> processedRowIndicesBySheet st n
           | Some kws \<Rightarrow> if matchFound (map toLowerCase kws) tags
                         then map_option (insert i) (processedRowIndicesBySheet st n)
                         else processedRowIndicesBySheet st n)" by blast
    have inv': "\<forall>n\<in>fst ` set rules. \<exists>rows seen. outputData st1 n = Some rows \<and>
          processedRowIndicesBySheet st1 n = Some seen \<and> (\<forall>j\<in>seen. j < Suc i)"
    proof
      fix n assume n: "n \<in> fst ` set rules"
      with Cons.prems(2) obtain rows seen where
        s: "outputData st n = Some rows" "processedRowIndicesBySheet st n = Some seen" "\<forall>j\<in>seen. j < i"
        by blast
      from s(3) have "\<forall>j\<in>seen. j < Suc i" "\<forall>j\<in>insert i seen. j < Suc i" by auto
      then show "\<exists>rows seen. outputData st1 n = Some rows \<and>
          processedRowIndicesBySheet st1 n = Some seen \<and> (\<forall>j\<in>seen. j < Suc i)"
        using o p s(1,2) by (auto split: option.split)
    qed
    from Cons.IH[OF Cons.prems(1) inv' th] obtain st' where
      l: "rowLoop rules c (Suc i) rest st1 = Inr st'"
      and o': "\<forall>n. outputData st' n = (case map_of rules n of
               None \<Rightarrow> outputData st1 n
             | Some kws \<Rightarrow> map_option (\<lambda>old. old @ List.map_filter (assignedCopy c kws) rest)
                             (outputData st1 n))"
      and p': "\<forall>n. processedRowIndicesBySheet st' n = (case map_of rules n of
               None \<Rightarrow> processedRowIndicesBySheet st1 n
             | Some kws \<Rightarrow> map_option (\<lambda>seen. seen \<union> set (assignedIndices c kws (Suc i) rest))
                             (processedRowIndicesBySheet st1 n))" by blast
    have "rowLoop rules c i (row # rest) st = Inr st'"
      using s Tagged r l by (simp add: loopBody_def)
    moreover have "\<forall>n. outputData st' n = (case map_of rules n of
               None \<Rightarrow> outputData st n
             | Some kws \<Rightarrow> map_option (\<lambda>old. old @ List.map_filter (assignedCopy c kws) (row # rest))
                             (outputData st n))"
    proof
      fix n
      show "outputData st' n = (case map_of rules n of
               None \<Rightarrow> outputData st n
             | Some kws \<Rightarrow> map_option (\<lambda>old. old @ List.map_filter (assignedCopy c kws) (row # rest))
                             (outputData st n))"
      proof (cases "map_of rules n")
        case None
        then show ?thesis using o o' by simp
      next
        case (Some kws)
        then show ?thesis using o[rule_format, of n] o'[rule_format, of n]
          by (cases "outputData st n") (simp_all add: cp List.map_filter_simps)
      qed
    qed
    moreover have "\<forall>n. processedRowIndicesBySheet st' n = (case map_of rules n of
               None \<Rightarrow> processedRowIndicesBySheet st n
             | Some kws \<Rightarrow> map_option (\<lambda>seen. seen \<union> set (assignedIndices c kws i (row # rest)))
                             (processedRowIndicesBySheet st n))"
    proof
      fix n
      show "processedRowIndicesBySheet st' n = (case map_of rules n of
               None \<Rightarrow> processedRowIndicesBySheet st n
             | Some kws \<Rightarrow> map_option (\<lambda>seen. seen \<union> set (assignedIndices c kws i (row # rest)))
                             (processedRowIndicesBySheet st n))"
      proof (cases "map_of rules n")
        case None
        then show ?thesis using p p' by simp
      next
        case (Some kws)
        then show ?thesis using p[rule_format, of n] p'[rule_format, of n]
          by (cases "processedRowIndicesBySheet st n") (simp_all add: cp)
      qed
    qed
    ultimately show ?thesis by blast
  qed
qed

lemma distinct_rules: "distinct (map fst GROUPING_RULES)"
  by (simp add: GROUPING_RULES_def)

lemma finalState_throws:
  assumes "throws c (drop 1 data)"
  shows "finalState data c = Inl TypeError"
  unfolding finalState_def
  by (rule rowLoop_throws[OF distinct_rules _ assms])
     (simp add: initialize_outputData initialize_processed)

lemma finalState_ok:
  assumes "\<not> throws c (drop 1 data)"
  shows "\<exists>st. finalState data c = Inr st \<and>
     (\<forall>n. outputData st n = (case map_of GROUPING_RULES n of
               None \<Rightarrow> None
             | Some kws \<Rightarrow> Some (List.map_filter (assignedCopy c kws) (drop 1 data)))) \<and>
     (\<forall>n. processedRowIndicesBySheet st n = (case map_of GROUPING_RULES n of
               None \<Rightarrow> None
             | Some kws \<Rightarrow> Some (set (assignedIndices c kws 1 (drop 1 data)))))"
proof -
  let ?st0 = "initialize GROUPING_RULES \<lparr>outputData = Map.empty, processedRowIndicesBySheet = Map.empty\<rparr>"
  have inv: "\<forall>n\<in>fst ` set GROUPING_RULES. \<exists>rows seen. outputData ?st0 n = Some rows \<and>
            processedRowIndicesBySheet ?st0 n = Some seen \<and> (\<forall>j\<in>seen. j < 1)"
    by (simp add: initialize_outputData initialize_processed)
  from rowLoop_ok[OF distinct_rules inv assms] obtain st where
    l: "rowLoop GROUPING_RULES c 1 (drop 1 data) ?st0 = Inr st"
    and o: "\<forall>n. outputData st n = (case map_of GROUPING_RULES n of
               None \<Rightarrow> outputData ?st0 n
             | Some kws \<Rightarrow> map_option (\<lambda>old. old @ List.map_filter (assignedCopy c kws) (drop 1 data))
                             (outputData ?st0 n))"
    and p: "\<forall>n. processedRowIndicesBySheet st n = (case map_of GROUPING_RULES n of
               None \<Rightarrow> processedRowIndicesBySheet ?st0 n
             | Some kws \<Rightarrow> map_option (\<lambda>seen. seen \<union> set (assignedIndices c kws 1 (drop 1 data)))
                             (processedRowIndicesBySheet ?st0 n))" by blast
  have "finalState data c = Inr st" using l by (simp add: finalState_def)
  moreover have "\<forall>n. outputData st n = (case map_of GROUPING_RULES n of
               None \<Rightarrow> None
             | Some kws \<Rightarrow> Some (List.map_filter (assignedCopy c kws) (drop 1 data)))"
  proof
    fix n
    show "outputData st n = (case map_of GROUPING_RULES n of
               None \<Rightarrow> None
             | Some kws \<Rightarrow> Some (List.map_filter (assignedCopy c kws) (drop 1 data)))"
    proof (cases "map_of GROUPING_RULES n")
      case None
      then have "n \<notin> fst ` set GROUPING_RULES" by (simp add: map_of_eq_None_iff)
      then show ?thesis using o[rule_format, of n] None by (simp add: initialize_outputData)
    next
      case (Some kws)
      then have "n \<in> fst ` set GROUPING_RULES" by (rule map_of_assigned)
      then show ?thesis using o[rule_format, of n] Some by (simp add: initialize_outputData)
    qed
  qed
  moreover have "\<forall>n. processedRowIndicesBySheet st n = (case map_of GROUPING_RULES n of
               None \<Rightarrow> None
             | Some kws \<Rightarrow> Some (set (assignedIndices c kws 1 (drop 1 data))))"
  proof
    fix n
    show "processedRowIndicesBySheet st n = (case map_of GROUPING_RULES n of
               None \<Rightarrow> None
             | Some kws \<Rightarrow> Some (set (assignedIndices c kws 1 (drop 1 data))))"
    proof (cases "map_of GROUPING_RULES n")
      case None
      then have "n \<notin> fst ` set GROUPING_RULES" by (simp add: map_of_eq_None_iff)
      then show ?thesis using p[rule_format, of n] None by (simp add: initialize_processed)
    next
      case (Some kws)
      then have "n \<in> fst ` set GROUPING_RULES" by (rule map_of_assigned)
      then show ?thesis using p[rule_format, of n] Some by (simp add: initialize_processed)
    qed
  qed
  ultimately show ?thesis by blast
qed

lemma rule_lookup:
  assumes "(name, kws) \<in> set GROUPING_RULES"
  shows "map_of GROUPING_RULES name = Some kws"
  using assms distinct_rules by simp

lemma processData_char:
  "processData data c =
     (if throws c (drop 1 data) then Inl TypeError
      else Inr (\<lambda>n. case map_of GROUPING_RULES n of
               None \<Rightarrow> None
             | Some kws \<Rightarrow> Some (List.map_filter (assignedCopy c kws) (drop 1 data))))"
proof (cases "throws c (drop 1 data)")
  case True
  then show ?thesis by (simp add: processData_def finalState_throws)
next
  case False
  from finalState_ok[OF False] obtain st where
    "finalState data c = Inr st"
    "\<forall>n. outputData st n = (case map_of GROUPING_RULES n of
               None \<Rightarrow> None
             | Some kws \<Rightarrow> Some (List.map_filter (assignedCopy c kws) (drop 1 data)))" by blast
  then show ?thesis using False by (auto simp: processData_def)
qed

lemma nth_Cons_shift: "Suc i \<le> x \<Longrightarrow> (row # rest) ! (x - i) = rest ! (x - Suc i)"
proof -
  assume "Suc i \<le> x"
  then have "x - i = Suc (x - Suc i)" by arith
  then show ?thesis by simp
qed

lemma assignedIndices_filter:
  "assignedIndices c kws i rows =
     filter (\<lambda>j. assignedCopy c kws (rows ! (j - i)) \<noteq> None) [i..<i + length rows]"
proof (induction rows arbitrary: i)
  case Nil
  then show ?case by simp
next
  case (Cons row rest)
  have up: "[i..<i + length (row # rest)] = i # [Suc i..<Suc i + length rest]"
    by (simp add: upt_rec)
  have sh: "\<And>j. j \<in> set [Suc i..<Suc i + length rest] \<Longrightarrow>
              (row # rest) ! (j - i) = rest ! (j - Suc i)"
  proof -
    fix j assume "j \<in> set [Suc i..<Suc i + length rest]"
    then have "Suc i \<le> j" by (simp only: set_upt atLeastLessThan_iff)
    then show "(row # rest) ! (j - i) = rest ! (j - Suc i)" by (rule nth_Cons_shift)
  qed
  have "filter (\<lambda>j. assignedCopy c kws ((row # rest) ! (j - i)) \<noteq> None) [Suc i..<Suc i + length rest]
      = filter (\<lambda>j. assignedCopy c kws (rest ! (j - Suc i)) \<noteq> None) [Suc i..<Suc i + length rest]"
    by (rule filter_cong[OF refl]) (simp only: sh)
  then have "filter (\<lambda>j. assignedCopy c kws ((row # rest) ! (j - i)) \<noteq> None) [Suc i..<Suc i + length rest]
      = assignedIndices c kws (Suc i) rest"
    using Cons.IH[of "Suc i"] by simp
  then show ?case unfolding up by simp
qed

lemma assignedIndices_bounds:
  "j \<in> set (assignedIndices c kws i rows) \<Longrightarrow> i \<le> j \<and> j < i + length rows"
  by (simp add: assignedIndices_filter)

lemma assignedIndices_copies:
  "map (\<lambda>j. the (assignedCopy c kws (rows ! (j - i)))) (assignedIndices c kws i rows)
     = List.map_filter (assignedCopy c kws) rows"
proof (induction rows arbitrary: i)
  case Nil
  then show ?case by (simp add: List.map_filter_simps)
next
  case (Cons row rest)
  have sh: "\<And>j. j \<in> set (assignedIndices c kws (Suc i) rest) \<Longrightarrow>
              (row # rest) ! (j - i) = rest ! (j - Suc i)"
  proof -
    fix j assume "j \<in> set (assignedIndices c kws (Suc i) rest)"
    then have "Suc i \<le> j" using assignedIndices_bounds by blast
    then show "(row # rest) ! (j - i) = rest ! (j - Suc i)" by (rule nth_Cons_shift)
  qed
  have "map (\<lambda>j. the (assignedCopy c kws ((row # rest) ! (j - i)))) (assignedIndices c kws (Suc i) rest)
      = map (\<lambda>j. the (assignedCopy c kws (rest ! (j - Suc i)))) (assignedIndices c kws (Suc i) rest)"
    by (rule map_cong[OF refl]) (simp only: sh)
  then show ?case using Cons.IH[of "Suc i"]
    by (auto simp: List.map_filter_simps)
qed

lemma drop1_nth: "0 < j \<Longrightarrow> j < length data \<Longrightarrow> drop 1 data ! (j - 1) = data ! j"
  by (cases data) (auto simp: nth_Cons split: nat.split)

lemma assignedIndices_data:
  "assignedIndices c kws 1 (drop 1 data) =
     filter (\<lambda>j. assignedCopy c kws (data ! j) \<noteq> None) [1..<length data]"
proof -
  have up: "[1..<1 + length (drop 1 data)] = [1..<length data]"
    by (cases data) auto
  have sh: "\<And>j. j \<in> set [1..<length data] \<Longrightarrow> drop 1 data ! (j - 1) = data ! j"
  proof -
    fix j assume "j \<in> set [1..<length data]"
    then have "0 < j" "j < length data" by auto
    then show "drop 1 data ! (j - 1) = data ! j" by (rule drop1_nth)
  qed
  have "filter (\<lambda>j. assignedCopy c kws (drop 1 data ! (j - 1)) \<noteq> None) [1..<length data]
     = filter (\<lambda>j. assignedCopy c kws (data ! j) \<noteq> None) [1..<length data]"
    by (rule filter_cong[OF refl]) (simp only: sh)
  then show ?thesis unfolding assignedIndices_filter up .
qed

lemma bucket_by_index:
  "List.map_filter (assignedCopy c kws) (drop 1 data) =
     map (\<lambda>j. the (assignedCopy c kws (data ! j)))
       (filter (\<lambda>j. assignedCopy c kws (data ! j) \<noteq> None) [1..<length data])"
proof -
  let ?is = "filter (\<lambda>j. assignedCopy c kws (data ! j) \<noteq> None) [1..<length data]"
  have sh: "\<And>j. j \<in> set ?is \<Longrightarrow> drop 1 data ! (j - 1) = data ! j"
  proof -
    fix j assume "j \<in> set ?is"
    then have "0 < j" "j < length data" by auto
    then show "drop 1 data ! (j - 1) = data ! j" by (rule drop1_nth)
  qed
  have "List.map_filter (assignedCopy c kws) (drop 1 data) =
     map (\<lambda>j. the (assignedCopy c kws (drop 1 data ! (j - 1)))) (assignedIndices c kws 1 (drop 1 data))"
    by (simp only: assignedIndices_copies)
  also have "\<dots> = map (\<lambda>j. the (assignedCopy c kws (drop 1 data ! (j - 1)))) ?is"
    by (simp only: assignedIndices_data)
  also have "\<dots> = map (\<lambda>j. the (assignedCopy c kws (data ! j))) ?is"
    by (rule map_cong[OF refl]) (simp only: sh)
  finally show ?thesis .
qed

section \<open>One row\<close>

lemma filterTransformParse_Tagged:
  assumes "filterTransformParse row c = Inr (Tagged r tags)"
  shows "\<exists>f. filterTransform row c = Inr (Some (r, f)) \<and> finalEtiquetaString r c = Inr f \<and>
             toLowerCase f \<noteq> toLowerCase EXCLUDED_TAG \<and> tags = parseTags f \<and> tags \<noteq> []"
proof -
  from assms obtain r' f where ft: "filterTransform row c = Inr (Some (r', f))"
    and ep: "excludeParse r' f = Tagged r tags"
    by (auto simp: filterTransformParse_def split: sum.splits option.splits)
  from ep have "r' = r" "toLowerCase f \<noteq> toLowerCase EXCLUDED_TAG" "tags = parseTags f" "tags \<noteq> []"
    by (auto simp: excludeParse_def Let_def split: if_splits)
  moreover from ft have "finalEtiquetaString r' c = Inr f"
    by (auto simp: filterTransform_def Let_def split: sum.splits if_splits)
  ultimately show ?thesis using ft by blast
qed

lemma tags_of_copy:
  assumes "filterTransformParse row c = Inr (Tagged r tags)"
    and "filterTransformParse row' c = Inr (Tagged r tags')"
  shows "tags' = tags"
  using filterTransformParse_Tagged[OF assms(1)] filterTransformParse_Tagged[OF assms(2)]
  by auto

lemma assignedCopy_Some_iff:
  "assignedCopy c kws row = Some r \<longleftrightarrow>
     (\<exists>tags. filterTransformParse row c = Inr (Tagged r tags) \<and> matchFound (map toLowerCase kws) tags)"
  by (auto simp: assignedCopy_def split: sum.splits step.splits)

lemma data_row_in_rows: "0 < i \<Longrightarrow> i < length data \<Longrightarrow> data ! i \<in> set (drop 1 data)"
  by (metis drop1_nth One_nat_def Suc_pred length_drop less_diff_conv nth_mem add.right_neutral add_Suc_right Suc_less_eq less_Suc_eq_0_disj diff_Suc_1 Suc_diff_1)

lemma keyword_in_tag_iff:
  "matchFound (map toLowerCase kws) tags \<longleftrightarrow>
     (\<exists>kw\<in>set kws. \<exists>tag\<in>set tags. \<exists>ps ss. tag = ps @ toLowerCase kw @ ss)"
  by (auto simp: matchFound_iff includes_str_iff)

lemma data_index_in_assigned:
  "i \<in> set (assignedIndices c kws 1 (drop 1 data)) \<longleftrightarrow>
     0 < i \<and> i < length data \<and> assignedCopy c kws (data ! i) \<noteq> None"
  unfolding assignedIndices_data by auto

section \<open>The state when the loop is left\<close>

lemma finalState_Inr:
  assumes "finalState data c = Inr st"
  shows "\<not> throws c (drop 1 data)"
    and "\<And>n kws. (n, kws) \<in> set GROUPING_RULES \<Longrightarrow>
           outputData st n = Some (List.map_filter (assignedCopy c kws) (drop 1 data))"
    and "\<And>n kws. (n, kws) \<in> set GROUPING_RULES \<Longrightarrow>
           processedRowIndicesBySheet st n = Some (set (assignedIndices c kws 1 (drop 1 data)))"
    and "\<And>n. n \<notin> fst ` set GROUPING_RULES \<Longrightarrow> outputData st n = None"
proof -
  show nt: "\<not> throws c (drop 1 data)"
    using assms finalState_throws by fastforce
  from finalState_ok[OF nt] assms have
    o: "\<forall>n. outputData st n = (case map_of GROUPING_RULES n of
               None \<Rightarrow> None
             | Some kws \<Rightarrow> Some (List.map_filter (assignedCopy c kws) (drop 1 data)))"
    and p: "\<forall>n. processedRowIndicesBySheet st n = (case map_of GROUPING_RULES n of
               None \<Rightarrow> None
             | Some kws \<Rightarrow> Some (set (assignedIndices c kws 1 (drop 1 data))))"
    by auto
  show "\<And>n kws. (n, kws) \<in> set GROUPING_RULES \<Longrightarrow>
           outputData st n = Some (List.map_filter (assignedCopy c kws) (drop 1 data))"
    using o rule_lookup by simp
  show "\<And>n kws. (n, kws) \<in> set GROUPING_RULES \<Longrightarrow>
           processedRowIndicesBySheet st n = Some (set (assignedIndices c kws 1 (drop 1 data)))"
    using p rule_lookup by simp
  show "\<And>n. n \<notin> fst ` set GROUPING_RULES \<Longrightarrow> outputData st n = None"
  proof -
    fix n assume "n \<notin> fst ` set GROUPING_RULES"
    then have "map_of GROUPING_RULES n = None" by (simp add: map_of_eq_None_iff)
    then show "outputData st n = None" using o by simp
  qed
qed

lemma processData_Inr:
  assumes "processData data c = Inr out"
  shows "\<exists>st. finalState data c = Inr st \<and> out = outputData st"
  using assms by (auto simp: processData_def split: sum.splits)

lemma in_bucket_iff:
  "r \<in> set (List.map_filter (assignedCopy c kws) rows) \<longleftrightarrow>
     (\<exists>row\<in>set rows. assignedCopy c kws row = Some r)"
  by (force simp: List.map_filter_def)

section \<open>Rows that are skipped\<close>

lemma rows_around:
  assumes "0 < i" "i < length data"
  shows "\<exists>pre post. drop 1 data = pre @ data ! i # post \<and> drop 1 (withoutRow i data) = pre @ post"
proof -
  have d: "data = take i data @ data ! i # drop (Suc i) data"
    using assms(2) by (rule id_take_nth_drop)
  have l: "1 \<le> length (take i data)" using assms by simp
  have "drop 1 data = drop 1 (take i data @ data ! i # drop (Suc i) data)"
    using d by simp
  also have "\<dots> = drop 1 (take i data) @ data ! i # drop (Suc i) data"
    using l by simp
  finally have 1: "drop 1 data = drop 1 (take i data) @ data ! i # drop (Suc i) data" .
  have 2: "drop 1 (withoutRow i data) = drop 1 (take i data) @ drop (Suc i) data"
    using l by (simp add: withoutRow_def)
  from 1 2 show ?thesis by blast
qed

lemma skipped_row_throws:
  assumes "filterTransformParse row c = Inr Skip"
  shows "throws c (pre @ row # post) = throws c (pre @ post)"
  using assms by (simp add: throws_def)

lemma skipped_row_bucket:
  assumes "filterTransformParse row c = Inr Skip"
  shows "List.map_filter (assignedCopy c kws) (pre @ row # post) =
         List.map_filter (assignedCopy c kws) (pre @ post)"
  using assms by (simp add: List.map_filter_def assignedCopy_def)

lemma skipped_row_processData:
  assumes "0 < i" "i < length data" "filterTransformParse (data ! i) c = Inr Skip"
  shows "processData (withoutRow i data) c = processData data c"
proof -
  from rows_around[OF assms(1,2)] obtain pre post where
    a: "drop 1 data = pre @ data ! i # post" and b: "drop 1 (withoutRow i data) = pre @ post"
    by blast
  show ?thesis
    unfolding processData_char a b
    by (simp only: skipped_row_throws[OF assms(3)] skipped_row_bucket[OF assms(3)])
qed

lemma skipped_row_loopBody:
  assumes "filterTransformParse row c = Inr Skip"
  shows "loopBody rules c i row st = Inr st"
  using assms by (simp add: loopBody_def)

lemma skipped_row_unseen:
  assumes "filterTransformParse (data ! i) c = Inr Skip"
    and "finalState data c = Inr st" "processedRowIndicesBySheet st name = Some seen"
  shows "i \<notin> seen"
proof (cases "map_of GROUPING_RULES name")
  case None
  from finalState_ok[OF finalState_Inr(1)[OF assms(2)]] assms(2)
  have "processedRowIndicesBySheet st name = None" using None by auto
  with assms(3) show ?thesis by simp
next
  case (Some kws)
  then have "(name, kws) \<in> set GROUPING_RULES" by (rule map_of_SomeD)
  from finalState_Inr(3)[OF assms(2) this] assms(3)
  have "seen = set (assignedIndices c kws 1 (drop 1 data))" by simp
  moreover have "assignedCopy c kws (data ! i) = None"
    using assms(1) by (simp add: assignedCopy_def)
  ultimately show ?thesis using data_index_in_assigned[of i c kws data] by simp
qed

section \<open>The two overwrites\<close>

lemma toString_Inr: "toString v = Inr s \<longleftrightarrow> v = Some s"
  by (cases v) (auto simp: toString_def)

lemma filterTransform_Some:
  assumes "filterTransform row c = Inr (Some (r, f))"
  shows "\<exists>p r1. publicableValue (spread row) c = Inr p \<and> p \<noteq> codeUnits ''NO''
           \<and> overwriteRespuesta (spread row) c = Inr r1
           \<and> overwriteEtiqueta r1 c = Inr r
           \<and> finalEtiquetaString r c = Inr f"
  using assms by (auto simp: filterTransform_def Let_def split: sum.splits if_splits)

lemma overwriteEtiqueta_other:
  assumes "overwriteEtiqueta r1 c = Inr r" "k \<noteq> c ETIQUETA_ORIG_COL_NAME"
  shows "getCell r k = getCell r1 k"
  using assms
  by (auto simp: overwriteEtiqueta_def Let_def getCell_setCell_other split: sum.splits if_splits)

lemma overwriteRespuesta_other:
  assumes "overwriteRespuesta r0 c = Inr r1" "k \<noteq> c RESPUESTA_COL_NAME"
  shows "getCell r1 k = getCell r0 k"
  using assms
  by (auto simp: overwriteRespuesta_def Let_def getCell_setCell_other split: sum.splits if_splits)

lemma overwriteRespuesta_answer:
  assumes "overwriteRespuesta r0 c = Inr r1"
    and "toString (getCell r0 (c RESPUESTA_ACT_COL_NAME)) = Inr s" "trim s \<noteq> []"
  shows "getCell r1 (c RESPUESTA_COL_NAME) = Some (trim s)"
  using assms
  by (auto simp: overwriteRespuesta_def Let_def getCell_setCell_same split: sum.splits if_splits)

lemma filterTransform_store_refines:
  assumes "a < length h" "h ! a = spread row"
  shows "filterTransform_store h a c =
     (case filterTransform row c of
        Inl e \<Rightarrow> Inl e
      | Inr None \<Rightarrow> Inr (None, h @ [spread row])
      | Inr (Some (r, f)) \<Rightarrow> Inr (Some (length h, f), h @ [r]))"
proof -
  have cp: "\<lparr>elems = elems (h ! a), undefinedProp = None\<rparr> = spread row"
    using assms(2) by (simp add: spread_def)
  have g: "(length h \<le> a) = False" using assms(1) by simp
  show ?thesis
    unfolding filterTransform_store_def filterTransform_def publicableValue_def
      overwriteRespuesta_def overwriteEtiqueta_def finalEtiquetaString_def cp g if_False
    by (simp add: Let_def split: sum.splits)
qed

section \<open>Validation of the required columns\<close>

lemma required_not_proto: "colName \<in> set requiredCols \<Longrightarrow> colName \<noteq> ''__proto__''"
  by (auto simp: requiredCols_def PUBLICABLE_COL_NAME_def RESPUESTA_COL_NAME_def
        RESPUESTA_ACT_COL_NAME_def ETIQUETA_ORIG_COL_NAME_def ETIQUETA_PROP_COL_NAME_def)

lemma firstUndefined_find:
  "firstUndefined c names = List.find (\<lambda>colName. c colName = None) names"
  by (induction names) auto

lemma firstUndefined_headers:
  "firstUndefined (findColumnHeaders hs) requiredCols =
     List.find (\<lambda>colName. colName \<notin> set (map trim hs)) requiredCols"
proof -
  have "List.find (\<lambda>colName. findColumnHeaders hs colName = None) requiredCols =
        List.find (\<lambda>colName. colName \<notin> set (map trim hs)) requiredCols"
    by (rule find_cong[OF refl]) (simp add: findColumnHeaders_None_iff required_not_proto)
  then show ?thesis by (simp only: firstUndefined_find)
qed

lemma full_spread: "full (length row) (spread row)"
  by (auto simp: full_def spread_def)

lemma full_getCell:
  assumes "full n r" "k < n"
  shows "\<exists>s. toString (getCell r (Some k)) = Inr s"
proof -
  from assms have "elems r ! k \<in> set (elems r)" by (simp add: full_def)
  with assms have "elems r ! k \<noteq> None" by (metis full_def)
  then show ?thesis using assms by (auto simp: getCell_def toString_def full_def)
qed

lemma full_setCell:
  assumes "full n r" "k < n"
  shows "full n (setCell r (Some k) v)"
proof -
  from assms have "set ((elems r)[k := Some v]) \<subseteq> insert (Some v) (set (elems r))"
    by (simp add: set_update_subset_insert)
  then have "None \<notin> set ((elems r)[k := Some v])" using assms by (auto simp: full_def)
  then show ?thesis using assms by (simp add: setCell_def full_def)
qed

lemma rectangular_row_no_throw:
  assumes "\<forall>colName\<in>set requiredCols. \<exists>k. c colName = Some k \<and> k < length row"
  shows "\<exists>s. filterTransformParse row c = Inr s"
proof -
  from assms obtain kp kr ka ko ke where
    kp: "c PUBLICABLE_COL_NAME = Some kp" "kp < length row" and
    kr: "c RESPUESTA_COL_NAME = Some kr" "kr < length row" and
    ka: "c RESPUESTA_ACT_COL_NAME = Some ka" "ka < length row" and
    ko: "c ETIQUETA_ORIG_COL_NAME = Some ko" "ko < length row" and
    ke: "c ETIQUETA_PROP_COL_NAME = Some ke" "ke < length row"
    by (auto simp: requiredCols_def)
  let ?n = "length row"
  have f0: "full ?n (spread row)" by (rule full_spread)
  from full_getCell[OF f0 kp(2)] obtain p where
    p: "publicableValue (spread row) c = Inr p"
    by (auto simp: publicableValue_def kp(1))
  from full_getCell[OF f0 ka(2)] obtain a where
    a: "toString (getCell (spread row) (c RESPUESTA_ACT_COL_NAME)) = Inr a"
    by (auto simp: ka(1))
  define r1 where "r1 = (if trim a \<noteq> [] then setCell (spread row) (Some kr) (trim a) else spread row)"
  have o1: "overwriteRespuesta (spread row) c = Inr r1"
    using a by (simp add: overwriteRespuesta_def r1_def kr(1) Let_def)
  have f1: "full ?n r1" using f0 full_setCell[OF f0 kr(2)] by (simp add: r1_def)
  from full_getCell[OF f1 ke(2)] obtain t where
    t: "toString (getCell r1 (c ETIQUETA_PROP_COL_NAME)) = Inr t"
    by (auto simp: ke(1))
  define r2 where "r2 = (if trim t \<noteq> [] then setCell r1 (Some ko) (trim t) else r1)"
  have o2: "overwriteEtiqueta r1 c = Inr r2"
    using t by (simp add: overwriteEtiqueta_def r2_def ko(1) Let_def)
  have f2: "full ?n r2" using f1 full_setCell[OF f1 ko(2)] by (simp add: r2_def)
  from full_getCell[OF f2 ko(2)] obtain f where
    f: "finalEtiquetaString r2 c = Inr f"
    by (auto simp: finalEtiquetaString_def ko(1))
  have "\<exists>x. filterTransform row c = Inr x"
    using p o1 o2 f by (simp add: filterTransform_def)
  then show ?thesis
    by (auto simp: filterTransformParse_def split: option.splits)
qed

lemma rectangular_no_throw:
  assumes "\<forall>colName\<in>set requiredCols. colName \<in> set (map trim hs)"
    and "\<forall>row\<in>set rows. length row = length hs"
  shows "\<not> throws (findColumnHeaders hs) rows"
proof -
  have "\<exists>s. filterTransformParse row (findColumnHeaders hs) = Inr s" if "row \<in> set rows" for row
  proof (rule rectangular_row_no_throw, rule ballI)
    fix colName assume cn: "colName \<in> set requiredCols"
    with assms(1) have "findColumnHeaders hs colName \<noteq> None"
      by (simp add: findColumnHeaders_None_iff required_not_proto)
    then obtain k where k: "findColumnHeaders hs colName = Some k" by auto
    from findColumnHeaders_position[OF this] have "k < length hs" by simp
    with that assms(2) k show "\<exists>k. findColumnHeaders hs colName = Some k \<and> k < length row"
      by simp
  qed
  then have "\<not> isl (filterTransformParse row (findColumnHeaders hs))" if "row \<in> set rows" for row
    using that by fastforce
  then show ?thesis by (auto simp: throws_def list_ex_iff)
qed

section \<open>The tag string Ingreso;Sedes\<close>

lemma ingreso_sedes_kept: "excludeParse r ''Ingreso;Sedes'' = Tagged r [''ingreso'', ''sedes'']"
proof -
  have "toLowerCase ''Ingreso;Sedes'' \<noteq> toLowerCase EXCLUDED_TAG" by code_simp
  moreover have "parseTags ''Ingreso;Sedes'' = [''ingreso'', ''sedes'']" by code_simp
  ultimately show ?thesis by (simp add: excludeParse_def)
qed

lemma ingreso_sedes_match:
  "matchFound (map toLowerCase (the (map_of GROUPING_RULES ''FAQ_Ingresantes''))) [''ingreso'', ''sedes'']"
  by code_simp

lemma ingresantes_rule:
  "(''FAQ_Ingresantes'', the (map_of GROUPING_RULES ''FAQ_Ingresantes'')) \<in> set GROUPING_RULES"
  by (simp add: GROUPING_RULES_def)

section \<open>The example sheet\<close>

lemma example_row_1:
  "filterTransformParse (exampleData ! 1) exampleIndices = Inr (Tagged (exampleCopy 1) [''beca''])"
  by code_simp

lemma example_row_2: "filterTransformParse (exampleData ! 2) exampleIndices = Inr Skip"
  by code_simp

lemma example_row_3:
  "filterTransformParse (exampleData ! 3) exampleIndices =
     Inr (Tagged (exampleCopy 3) [''inscripci'' @ [CHR 0xF3] @ ''n abierta'', ''varios temas''])"
  by code_simp

lemma example_row_4: "filterTransformParse (exampleData ! 4) exampleIndices = Inr Skip"
  by code_simp

lemma example_row_5:
  "filterTransformParse (exampleData ! 5) exampleIndices =
     Inr (Tagged (exampleCopy 5) [''ingreso'', ''sedes''])"
  by code_simp

lemma example_row_6: "filterTransformParse (exampleData ! 6) exampleIndices = Inr Skip"
  by code_simp

lemma example_row_7:
  "filterTransformParse (exampleData ! 7) exampleIndices =
     Inr (Tagged (exampleCopy 7) [''ingreso'', ''ingresantes''])"
  by code_simp

lemma example_match_1:
  "\<forall>(n, kws)\<in>set GROUPING_RULES.
     matchFound (map toLowerCase kws) [''beca''] = (n = ''FAQ_Ingresantes'')"
  by code_simp

lemma example_match_3:
  "\<forall>(n, kws)\<in>set GROUPING_RULES.
     matchFound (map toLowerCase kws) [''inscripci'' @ [CHR 0xF3] @ ''n abierta'', ''varios temas'']
       = (n = ''FAQ_Ingresantes'' \<or> n = ''FAQ_Preguntas_frecuentes_generales'')"
  by code_simp

lemma example_match_5:
  "\<forall>(n, kws)\<in>set GROUPING_RULES.
     matchFound (map toLowerCase kws) [''ingreso'', ''sedes''] = (n = ''FAQ_Ingresantes'')"
  by code_simp

lemma example_match_7:
  "\<forall>(n, kws)\<in>set GROUPING_RULES.
     matchFound (map toLowerCase kws) [''ingreso'', ''ingresantes''] = (n = ''FAQ_Ingresantes'')"
  by code_simp

lemma example_rows:
  "drop 1 exampleData = [exampleData ! 1, exampleData ! 2, exampleData ! 3, exampleData ! 4,
                         exampleData ! 5, exampleData ! 6, exampleData ! 7]"
  by (simp add: exampleData_def)

lemma example_assigned:
  assumes "(n, kws) \<in> set GROUPING_RULES"
  shows "assignedCopy exampleIndices kws (exampleData ! 1) =
           (if n = ''FAQ_Ingresantes'' then Some (exampleCopy 1) else None)"
    and "assignedCopy exampleIndices kws (exampleData ! 2) = None"
    and "assignedCopy exampleIndices kws (exampleData ! 3) =
           (if n = ''FAQ_Ingresantes'' \<or> n = ''FAQ_Preguntas_frecuentes_generales''
            then Some (exampleCopy 3) else None)"
    and "assignedCopy exampleIndices kws (exampleData ! 4) = None"
    and "assignedCopy exampleIndices kws (exampleData ! 5) =
           (if n = ''FAQ_Ingresantes'' then Some (exampleCopy 5) else None)"
    and "assignedCopy exampleIndices kws (exampleData ! 6) = None"
    and "assignedCopy exampleIndices kws (exampleData ! 7) =
           (if n = ''FAQ_Ingresantes'' then Some (exampleCopy 7) else None)"
proof -
  have m1: "matchFound (map toLowerCase kws) [''beca''] = (n = ''FAQ_Ingresantes'')"
    using example_match_1 assms by blast
  have m3: "matchFound (map toLowerCase kws) [''inscripci'' @ [CHR 0xF3] @ ''n abierta'', ''varios temas'']
       = (n = ''FAQ_Ingresantes'' \<or> n = ''FAQ_Preguntas_frecuentes_generales'')"
    using example_match_3 assms by blast
  have m5: "matchFound (map toLowerCase kws) [''ingreso'', ''sedes''] = (n = ''FAQ_Ingresantes'')"
    using example_match_5 assms by blast
  have m7: "matchFound (map toLowerCase kws) [''ingreso'', ''ingresantes''] = (n = ''FAQ_Ingresantes'')"
    using example_match_7 assms by blast
  show "assignedCopy exampleIndices kws (exampleData ! 1) =
           (if n = ''FAQ_Ingresantes'' then Some (exampleCopy 1) else None)"
    by (simp only: assignedCopy_def example_row_1 m1 sum.case step.case)
  show "assignedCopy exampleIndices kws (exampleData ! 2) = None"
    by (simp only: assignedCopy_def example_row_2 sum.case step.case)
  show "assignedCopy exampleIndices kws (exampleData ! 3) =
           (if n = ''FAQ_Ingresantes'' \<or> n = ''FAQ_Preguntas_frecuentes_generales''
            then Some (exampleCopy 3) else None)"
    by (simp only: assignedCopy_def example_row_3 m3 sum.case step.case)
  show "assignedCopy exampleIndices kws (exampleData ! 4) = None"
    by (simp only: assignedCopy_def example_row_4 sum.case step.case)
  show "assignedCopy exampleIndices kws (exampleData ! 5) =
           (if n = ''FAQ_Ingresantes'' then Some (exampleCopy 5) else None)"
    by (simp only: assignedCopy_def example_row_5 m5 sum.case step.case)
  show "assignedCopy exampleIndices kws (exampleData ! 6) = None"
    by (simp only: assignedCopy_def example_row_6 sum.case step.case)
  show "assignedCopy exampleIndices kws (exampleData ! 7) =
           (if n = ''FAQ_Ingresantes'' then Some (exampleCopy 7) else None)"
    by (simp only: assignedCopy_def example_row_7 m7 sum.case step.case)
qed

lemma example_not_throws: "\<not> throws exampleIndices (drop 1 exampleData)"
  unfolding example_rows throws_def
  by (simp add: example_row_1 example_row_2 example_row_3 example_row_4
        example_row_5 example_row_6 example_row_7 del: One_nat_def)

lemma example_lookup:
  "outputData exampleState ''FAQ_Ingresantes'' =
     Some [exampleCopy 1, exampleCopy 3, exampleCopy 5, exampleCopy 7]"
  "outputData exampleState ''FAQ_Alumnos_Examen'' = Some []"
  "outputData exampleState ''FAQ_Tramites_Equivalencias_SAG'' = Some []"
  "outputData exampleState ''FAQ_Preguntas_frecuentes_generales'' = Some [exampleCopy 3]"
  "processedRowIndicesBySheet exampleState ''FAQ_Ingresantes'' = Some {1, 3, 5, 7}"
  "processedRowIndicesBySheet exampleState ''FAQ_Alumnos_Examen'' = Some {}"
  "processedRowIndicesBySheet exampleState ''FAQ_Tramites_Equivalencias_SAG'' = Some {}"
  "processedRowIndicesBySheet exampleState ''FAQ_Preguntas_frecuentes_generales'' = Some {3}"
  by (simp_all add: exampleState_def)

lemma rule_names:
  assumes "(n, kws) \<in> set GROUPING_RULES"
  shows "n = ''FAQ_Ingresantes'' \<or> n = ''FAQ_Alumnos_Examen''
    \<or> n = ''FAQ_Tramites_Equivalencias_SAG'' \<or> n = ''FAQ_Preguntas_frecuentes_generales''"
  using assms by (auto simp: GROUPING_RULES_def)

lemma example_buckets:
  assumes "(n, kws) \<in> set GROUPING_RULES"
  shows "outputData exampleState n =
       Some (List.map_filter (assignedCopy exampleIndices kws) (drop 1 exampleData)) \<and>
     processedRowIndicesBySheet exampleState n =
       Some (set (assignedIndices exampleIndices kws 1 (drop 1 exampleData)))"
proof -
  note ac = example_assigned[OF assms]
  from rule_names[OF assms] consider "n = ''FAQ_Ingresantes''" | "n = ''FAQ_Alumnos_Examen''"
    | "n = ''FAQ_Tramites_Equivalencias_SAG''" | "n = ''FAQ_Preguntas_frecuentes_generales''"
    by blast
  then show ?thesis
  proof cases
    case 1
    have a: "assignedCopy exampleIndices kws (exampleData ! 1) = Some (exampleCopy 1)"
      "assignedCopy exampleIndices kws (exampleData ! 3) = Some (exampleCopy 3)"
      "assignedCopy exampleIndices kws (exampleData ! 5) = Some (exampleCopy 5)"
      "assignedCopy exampleIndices kws (exampleData ! 7) = Some (exampleCopy 7)"
      using ac(1,3,5,7) 1 by simp_all
    have "List.map_filter (assignedCopy exampleIndices kws) (drop 1 exampleData) =
            [exampleCopy 1, exampleCopy 3, exampleCopy 5, exampleCopy 7]"
      unfolding example_rows by (simp only: List.map_filter_simps a ac(2,4,6) option.case)
    moreover have "assignedIndices exampleIndices kws 1 (drop 1 exampleData) = [1, 3, 5, 7]"
      unfolding example_rows by (simp add: a ac(2,4,6) del: One_nat_def)
    ultimately show ?thesis using 1 by (simp only: example_lookup list.set)
  next
    case 2
    have a: "assignedCopy exampleIndices kws (exampleData ! 1) = None"
      "assignedCopy exampleIndices kws (exampleData ! 3) = None"
      "assignedCopy exampleIndices kws (exampleData ! 5) = None"
      "assignedCopy exampleIndices kws (exampleData ! 7) = None"
      using ac(1,3,5,7) 2 by simp_all
    have "List.map_filter (assignedCopy exampleIndices kws) (drop 1 exampleData) = []"
      unfolding example_rows by (simp only: List.map_filter_simps a ac(2,4,6) option.case)
    moreover have "assignedIndices exampleIndices kws 1 (drop 1 exampleData) = []"
      unfolding example_rows by (simp add: a ac(2,4,6) del: One_nat_def)
    ultimately show ?thesis using 2 by (simp only: example_lookup list.set)
  next
    case 3
    have a: "assignedCopy exampleIndices kws (exampleData ! 1) = None"
      "assignedCopy exampleIndices kws (exampleData ! 3) = None"
      "assignedCopy exampleIndices kws (exampleData ! 5) = None"
      "assignedCopy exampleIndices kws (exampleData ! 7) = None"
      using ac(1,3,5,7) 3 by simp_all
    have "List.map_filter (assignedCopy exampleIndices kws) (drop 1 exampleData) = []"
      unfolding example_rows by (simp only: List.map_filter_simps a ac(2,4,6) option.case)
    moreover have "assignedIndices exampleIndices kws 1 (drop 1 exampleData) = []"
      unfolding example_rows by (simp add: a ac(2,4,6) del: One_nat_def)
    ultimately show ?thesis using 3 by (simp only: example_lookup list.set)
  next
    case 4
    have a: "assignedCopy exampleIndices kws (exampleData ! 1) = None"
      "assignedCopy exampleIndices kws (exampleData ! 3) = Some (exampleCopy 3)"
      "assignedCopy exampleIndices kws (exampleData ! 5) = None"
      "assignedCopy exampleIndices kws (exampleData ! 7) = None"
      using ac(1,3,5,7) 4 by simp_all
    have "List.map_filter (assignedCopy exampleIndices kws) (drop 1 exampleData) = [exampleCopy 3]"
      unfolding example_rows by (simp only: List.map_filter_simps a ac(2,4,6) option.case)
    moreover have "assignedIndices exampleIndices kws 1 (drop 1 exampleData) = [3]"
      unfolding example_rows by (simp add: a ac(2,4,6) del: One_nat_def)
    ultimately show ?thesis using 4 by (simp only: example_lookup list.set)
  qed
qed

lemma example_other:
  assumes "n \<notin> fst ` set GROUPING_RULES"
  shows "outputData exampleState n = None \<and> processedRowIndicesBySheet exampleState n = None"
  using assms by (simp add: GROUPING_RULES_def exampleState_def)

lemma example_finalState: "finalState exampleData exampleIndices = Inr exampleState"
proof -
  from finalState_ok[OF example_not_throws] obtain st where
    f: "finalState exampleData exampleIndices = Inr st"
    and o: "\<forall>n. outputData st n = (case map_of GROUPING_RULES n of
               None \<Rightarrow> None
             | Some kws \<Rightarrow> Some (List.map_filter (assignedCopy exampleIndices kws) (drop 1 exampleData)))"
    and p: "\<forall>n. processedRowIndicesBySheet st n = (case map_of GROUPING_RULES n of
               None \<Rightarrow> None
             | Some kws \<Rightarrow> Some (set (assignedIndices exampleIndices kws 1 (drop 1 exampleData))))"
    by blast
  have "outputData st n = outputData exampleState n
      \<and> processedRowIndicesBySheet st n = processedRowIndicesBySheet exampleState n" for n
  proof (cases "map_of GROUPING_RULES n")
    case None
    then have "n \<notin> fst ` set GROUPING_RULES" by (simp add: map_of_eq_None_iff)
    from example_other[OF this] show ?thesis using o p None by simp
  next
    case (Some kws)
    then have "(n, kws) \<in> set GROUPING_RULES" by (rule map_of_SomeD)
    from example_buckets[OF this] show ?thesis using o p Some by simp
  qed
  then have "outputData st = outputData exampleState"
    "processedRowIndicesBySheet st = processedRowIndicesBySheet exampleState" by auto
  then have "st = exampleState" by simp
  with f show ?thesis by simp
qed

lemma example_processData: "processData exampleData exampleIndices = Inr (outputData exampleState)"
  by (simp add: processData_def example_finalState)

section \<open>The claims\<close>

text \<open>
  C1. Let the loop be left with the state \<open>st\<close>, whose \<open>outputData\<close> is what
  \<open>processData\<close> returns. A data row that passes the publish filter and the exclusion
  checks, with copy \<open>r\<close> and parsed tags \<open>tags\<close>, is in the bucket of a configured
  category exactly when one of the category's lower-cased keywords is a substring of one of
  the tags; the category's set of row indices holds the row's index in exactly that case.
  Each category is decided by its own keywords only, so one row can be in several buckets.
\<close>

theorem C1_assigned_iff_keyword_in_tag:
  assumes "finalState data c = Inr st"
    and "0 < i" and "i < length data"
    and "filterTransformParse (data ! i) c = Inr (Tagged r tags)"
    and "(name, kws) \<in> set GROUPING_RULES"
  shows "\<exists>rows seen.
           processData data c = Inr (outputData st) \<and>
           outputData st name = Some rows \<and> processedRowIndicesBySheet st name = Some seen \<and>
           (r \<in> set rows \<longleftrightarrow>
              (\<exists>kw\<in>set kws. \<exists>tag\<in>set tags. \<exists>ps ss. tag = ps @ toLowerCase kw @ ss)) \<and>
           (i \<in> seen \<longleftrightarrow>
              (\<exists>kw\<in>set kws. \<exists>tag\<in>set tags. \<exists>ps ss. tag = ps @ toLowerCase kw @ ss))"
proof -
  let ?rows = "List.map_filter (assignedCopy c kws) (drop 1 data)"
  let ?seen = "set (assignedIndices c kws 1 (drop 1 data))"
  let ?kw = "\<exists>kw\<in>set kws. \<exists>tag\<in>set tags. \<exists>ps ss. tag = ps @ toLowerCase kw @ ss"
  have o: "outputData st name = Some ?rows"
    and p: "processedRowIndicesBySheet st name = Some ?seen"
    using finalState_Inr(2,3)[OF assms(1) assms(5)] by simp_all
  have own: "assignedCopy c kws (data ! i) = (if ?kw then Some r else None)"
    using assms(4) by (simp add: assignedCopy_def keyword_in_tag_iff)
  have "r \<in> set ?rows \<longleftrightarrow> ?kw"
  proof
    assume "r \<in> set ?rows"
    then obtain row where "assignedCopy c kws row = Some r" by (auto simp: in_bucket_iff)
    then obtain tags' where t: "filterTransformParse row c = Inr (Tagged r tags')"
      and m: "matchFound (map toLowerCase kws) tags'"
      by (auto simp: assignedCopy_Some_iff)
    from tags_of_copy[OF assms(4) t] m show ?kw by (simp add: keyword_in_tag_iff)
  next
    assume ?kw
    with own have "assignedCopy c kws (data ! i) = Some r" by simp
    moreover have "data ! i \<in> set (drop 1 data)" using assms(2,3) by (rule data_row_in_rows)
    ultimately show "r \<in> set ?rows" by (auto simp: in_bucket_iff)
  qed
  moreover have "i \<in> ?seen \<longleftrightarrow> ?kw"
    using own assms(2,3) unfolding data_index_in_assigned by simp
  moreover have "processData data c = Inr (outputData st)"
    using assms(1) by (simp add: processData_def)
  ultimately show ?thesis using o p by blast
qed

theorem C1_witness:
  "finalState exampleData exampleIndices = Inr exampleState \<and> 0 < (3::nat) \<and> 3 < length exampleData \<and>
   filterTransformParse (exampleData ! 3) exampleIndices =
     Inr (Tagged (exampleCopy 3) [''inscripci'' @ [CHR 0xF3] @ ''n abierta'', ''varios temas'']) \<and>
   (''FAQ_Preguntas_frecuentes_generales'',
      [''Oferta Acad'' @ [CHR 0xE9] @ ''mica'', ''Postgrados'', ''Cursos'', ''FAQ'', ''Varios''])
     \<in> set GROUPING_RULES \<and>
   outputData exampleState ''FAQ_Ingresantes'' =
     Some [exampleCopy 1, exampleCopy 3, exampleCopy 5, exampleCopy 7] \<and>
   outputData exampleState ''FAQ_Preguntas_frecuentes_generales'' = Some [exampleCopy 3] \<and>
   (\<exists>rows seen.
      processData exampleData exampleIndices = Inr (outputData exampleState) \<and>
      outputData exampleState ''FAQ_Preguntas_frecuentes_generales'' = Some rows \<and>
      processedRowIndicesBySheet exampleState ''FAQ_Preguntas_frecuentes_generales'' = Some seen \<and>
      (exampleCopy 3 \<in> set rows \<longleftrightarrow>
         (\<exists>kw\<in>set [''Oferta Acad'' @ [CHR 0xE9] @ ''mica'', ''Postgrados'', ''Cursos'', ''FAQ'', ''Varios''].
            \<exists>tag\<in>set [''inscripci'' @ [CHR 0xF3] @ ''n abierta'', ''varios temas''].
              \<exists>ps ss. tag = ps @ toLowerCase kw @ ss)) \<and>
      (3 \<in> seen \<longleftrightarrow>
         (\<exists>kw\<in>set [''Oferta Acad'' @ [CHR 0xE9] @ ''mica'', ''Postgrados'', ''Cursos'', ''FAQ'', ''Varios''].
            \<exists>tag\<in>set [''inscripci'' @ [CHR 0xF3] @ ''n abierta'', ''varios temas''].
              \<exists>ps ss. tag = ps @ toLowerCase kw @ ss)))"
proof -
  have h2: "0 < (3::nat)" by simp
  have h3: "3 < length exampleData" by (simp add: exampleData_def)
  have h5: "(''FAQ_Preguntas_frecuentes_generales'',
      [''Oferta Acad'' @ [CHR 0xE9] @ ''mica'', ''Postgrados'', ''Cursos'', ''FAQ'', ''Varios''])
     \<in> set GROUPING_RULES" by (simp add: GROUPING_RULES_def)
  from C1_assigned_iff_keyword_in_tag[OF example_finalState h2 h3 example_row_3 h5]
    example_finalState h2 h3 example_row_3 h5 example_lookup(1,4)
  show ?thesis by (intro conjI)
qed

text \<open>
  C2. Let a data row pass the publish filter, with copy \<open>r\<close> and final tag string \<open>f\<close>
  (read from the original-tag cell of the copy after the proposed-tag overwrite, trimmed).
  If \<open>f\<close> as a whole equals the excluded tag up to case, the row is skipped: the
  iteration leaves the state as it was, the result is the result on the sheet without the
  row, and no category records the row's index. If \<open>f\<close> is \<open>Ingreso;Sedes\<close>, where the
  excluded tag is one piece of several, the row is kept with the tags \<open>ingreso\<close> and
  \<open>sedes\<close> and its copy is in the bucket \<open>FAQ_Ingresantes\<close>.
\<close>

theorem C2_excluded_tag_whole_string:
  assumes "0 < i" and "i < length data"
    and "filterTransform (data ! i) c = Inr (Some (r, f))"
  shows "(toLowerCase f = toLowerCase EXCLUDED_TAG \<longrightarrow>
            filterTransformParse (data ! i) c = Inr Skip
          \<and> loopBody rules c i (data ! i) st = Inr st
          \<and> processData (withoutRow i data) c = processData data c
          \<and> (\<forall>st' name seen. finalState data c = Inr st' \<longrightarrow>
                processedRowIndicesBySheet st' name = Some seen \<longrightarrow> i \<notin> seen))
       \<and> (f = ''Ingreso;Sedes'' \<longrightarrow>
            filterTransformParse (data ! i) c = Inr (Tagged r [''ingreso'', ''sedes''])
          \<and> (\<forall>st'. finalState data c = Inr st' \<longrightarrow>
                (\<exists>rows seen. outputData st' ''FAQ_Ingresantes'' = Some rows \<and> r \<in> set rows
                   \<and> processedRowIndicesBySheet st' ''FAQ_Ingresantes'' = Some seen \<and> i \<in> seen)))"
proof (intro conjI impI)
  assume ex: "toLowerCase f = toLowerCase EXCLUDED_TAG"
  then have sk: "filterTransformParse (data ! i) c = Inr Skip"
    using assms(3) by (simp add: filterTransformParse_def excludeParse_def)
  show "filterTransformParse (data ! i) c = Inr Skip" by (rule sk)
  show "loopBody rules c i (data ! i) st = Inr st" by (rule skipped_row_loopBody[OF sk])
  show "processData (withoutRow i data) c = processData data c"
    by (rule skipped_row_processData[OF assms(1,2) sk])
  show "\<forall>st' name seen. finalState data c = Inr st' \<longrightarrow>
          processedRowIndicesBySheet st' name = Some seen \<longrightarrow> i \<notin> seen"
    using skipped_row_unseen[OF sk] by blast
next
  assume f: "f = ''Ingreso;Sedes''"
  let ?kws = "the (map_of GROUPING_RULES ''FAQ_Ingresantes'')"
  show kept: "filterTransformParse (data ! i) c = Inr (Tagged r [''ingreso'', ''sedes''])"
    using assms(3) f by (simp add: filterTransformParse_def ingreso_sedes_kept)
  have own: "assignedCopy c ?kws (data ! i) = Some r"
    using kept ingreso_sedes_match by (simp add: assignedCopy_def)
  show "\<forall>st'. finalState data c = Inr st' \<longrightarrow>
          (\<exists>rows seen. outputData st' ''FAQ_Ingresantes'' = Some rows \<and> r \<in> set rows
             \<and> processedRowIndicesBySheet st' ''FAQ_Ingresantes'' = Some seen \<and> i \<in> seen)"
  proof (intro allI impI)
    fix st' assume fs: "finalState data c = Inr st'"
    have "data ! i \<in> set (drop 1 data)" using assms(1,2) by (rule data_row_in_rows)
    with own have "r \<in> set (List.map_filter (assignedCopy c ?kws) (drop 1 data))"
      by (auto simp: in_bucket_iff)
    moreover have "i \<in> set (assignedIndices c ?kws 1 (drop 1 data))"
      using own assms(1,2) data_index_in_assigned[of i c ?kws data] by simp
    ultimately show "\<exists>rows seen. outputData st' ''FAQ_Ingresantes'' = Some rows \<and> r \<in> set rows
             \<and> processedRowIndicesBySheet st' ''FAQ_Ingresantes'' = Some seen \<and> i \<in> seen"
      using finalState_Inr(2,3)[OF fs ingresantes_rule] by simp
  qed
qed

theorem C2_witness:
  "0 < (4::nat) \<and> 4 < length exampleData
   \<and> exampleData ! 4 = [''SI'', ''a'', '''', ''Ingreso'', '' sedes '']
   \<and> filterTransform (exampleData ! 4) exampleIndices =
        Inr (Some (spread [''SI'', ''a'', '''', ''sedes'', '' sedes ''], ''sedes''))
   \<and> toLowerCase ''sedes'' = toLowerCase EXCLUDED_TAG
   \<and> filterTransformParse (exampleData ! 4) exampleIndices = Inr Skip
   \<and> loopBody GROUPING_RULES exampleIndices 4 (exampleData ! 4) exampleState = Inr exampleState
   \<and> processData (withoutRow 4 exampleData) exampleIndices = processData exampleData exampleIndices
   \<and> finalState exampleData exampleIndices = Inr exampleState
   \<and> processedRowIndicesBySheet exampleState ''FAQ_Ingresantes'' = Some {1, 3, 5, 7}
   \<and> (4::nat) \<notin> {1, 3, 5, 7}
   \<and> 0 < (5::nat) \<and> 5 < length exampleData
   \<and> filterTransform (exampleData ! 5) exampleIndices = Inr (Some (exampleCopy 5, ''Ingreso;Sedes''))
   \<and> filterTransformParse (exampleData ! 5) exampleIndices =
        Inr (Tagged (exampleCopy 5) [''ingreso'', ''sedes''])
   \<and> (\<exists>rows seen. outputData exampleState ''FAQ_Ingresantes'' = Some rows \<and> exampleCopy 5 \<in> set rows
         \<and> processedRowIndicesBySheet exampleState ''FAQ_Ingresantes'' = Some seen \<and> 5 \<in> seen)"
proof -
  have h1: "0 < (4::nat)" by simp
  have h2: "4 < length exampleData" by (simp add: exampleData_def)
  have h3: "filterTransform (exampleData ! 4) exampleIndices =
        Inr (Some (spread [''SI'', ''a'', '''', ''sedes'', '' sedes ''], ''sedes''))"
    by code_simp
  have h4: "exampleData ! 4 = [''SI'', ''a'', '''', ''Ingreso'', '' sedes '']"
    by (simp add: exampleData_def)
  have h5: "toLowerCase ''sedes'' = toLowerCase EXCLUDED_TAG" by code_simp
  note c = C2_excluded_tag_whole_string[OF h1 h2 h3, of GROUPING_RULES exampleState, THEN conjunct1, rule_format, OF h5]
  from c have c1: "filterTransformParse (exampleData ! 4) exampleIndices = Inr Skip"
    by (rule conjunct1)
  from c have c2: "loopBody GROUPING_RULES exampleIndices 4 (exampleData ! 4) exampleState = Inr exampleState"
    by (elim conjE)
  from c have c3: "processData (withoutRow 4 exampleData) exampleIndices = processData exampleData exampleIndices"
    by (elim conjE)
  from c have c4: "\<forall>st' name seen. finalState exampleData exampleIndices = Inr st' \<longrightarrow>
             processedRowIndicesBySheet st' name = Some seen \<longrightarrow> 4 \<notin> seen" by (elim conjE)
  from c4 example_finalState example_lookup(5) have c5: "(4::nat) \<notin> {1, 3, 5, 7}" by blast
  have g1: "0 < (5::nat)" by simp
  have g2: "5 < length exampleData" by (simp add: exampleData_def)
  have g3: "filterTransform (exampleData ! 5) exampleIndices = Inr (Some (exampleCopy 5, ''Ingreso;Sedes''))"
    by code_simp
  note d = C2_excluded_tag_whole_string[OF g1 g2 g3, of GROUPING_RULES exampleState, THEN conjunct2, rule_format, OF refl]
  from d have d1: "filterTransformParse (exampleData ! 5) exampleIndices =
        Inr (Tagged (exampleCopy 5) [''ingreso'', ''sedes''])" by (rule conjunct1)
  from d have "\<forall>st'. finalState exampleData exampleIndices = Inr st' \<longrightarrow>
                (\<exists>rows seen. outputData st' ''FAQ_Ingresantes'' = Some rows \<and> exampleCopy 5 \<in> set rows
                   \<and> processedRowIndicesBySheet st' ''FAQ_Ingresantes'' = Some seen \<and> 5 \<in> seen)"
    by (rule conjunct2)
  with example_finalState have d2: "\<exists>rows seen. outputData exampleState ''FAQ_Ingresantes'' = Some rows \<and> exampleCopy 5 \<in> set rows
         \<and> processedRowIndicesBySheet exampleState ''FAQ_Ingresantes'' = Some seen \<and> 5 \<in> seen"
    by blast
  from h1 h2 h4 h3 h5 c1 c2 c3 example_finalState example_lookup(5) c5 g1 g2 g3 d1 d2
  show ?thesis by (intro conjI)
qed

text \<open>
  C3. A data row whose publishable cell, trimmed and upper-cased, is \<open>NO\<close> leaves the loop
  body at the publish filter, whatever its other cells are (also when reading them would
  throw): the state is the one before the iteration, the result of \<open>processData\<close> is the
  result on the sheet without the row, and no category's set of row indices holds the
  row's index.
\<close>

theorem C3_unpublishable_row_excluded:
  assumes "0 < i" and "i < length data"
    and "publicableValue (spread (data ! i)) c = Inr (codeUnits ''NO'')"
  shows "filterTransform (data ! i) c = Inr None
       \<and> loopBody rules c i (data ! i) st = Inr st
       \<and> processData (withoutRow i data) c = processData data c
       \<and> (\<forall>st' name seen. finalState data c = Inr st' \<longrightarrow>
             processedRowIndicesBySheet st' name = Some seen \<longrightarrow> i \<notin> seen)"
proof -
  have ft: "filterTransform (data ! i) c = Inr None"
    using assms(3) by (simp add: filterTransform_def)
  then have sk: "filterTransformParse (data ! i) c = Inr Skip"
    by (simp add: filterTransformParse_def)
  show ?thesis
    using ft skipped_row_loopBody[OF sk] skipped_row_processData[OF assms(1,2) sk]
      skipped_row_unseen[OF sk]
    by blast
qed

theorem C3_witness:
  "0 < (2::nat) \<and> 2 < length exampleData
   \<and> exampleData ! 2 = ['' no '', ''old'', ''new answer'', ''Beca'', '''']
   \<and> publicableValue (spread (exampleData ! 2)) exampleIndices = Inr (codeUnits ''NO'')
   \<and> filterTransform (exampleData ! 2) exampleIndices = Inr None
   \<and> loopBody GROUPING_RULES exampleIndices 2 (exampleData ! 2) exampleState = Inr exampleState
   \<and> processData (withoutRow 2 exampleData) exampleIndices = processData exampleData exampleIndices
   \<and> finalState exampleData exampleIndices = Inr exampleState
   \<and> processedRowIndicesBySheet exampleState ''FAQ_Ingresantes'' = Some {1, 3, 5, 7}
   \<and> (2::nat) \<notin> {1, 3, 5, 7}"
proof -
  have h1: "0 < (2::nat)" by simp
  have h2: "2 < length exampleData" by (simp add: exampleData_def)
  have h3: "publicableValue (spread (exampleData ! 2)) exampleIndices = Inr (codeUnits ''NO'')"
    by code_simp
  have h4: "exampleData ! 2 = ['' no '', ''old'', ''new answer'', ''Beca'', '''']"
    by (simp add: exampleData_def)
  note c = C3_unpublishable_row_excluded[OF h1 h2 h3, of GROUPING_RULES exampleState]
  from c have c1: "filterTransform (exampleData ! 2) exampleIndices = Inr None" by (rule conjunct1)
  from c have c2: "loopBody GROUPING_RULES exampleIndices 2 (exampleData ! 2) exampleState = Inr exampleState"
    by (elim conjE)
  from c have c3: "processData (withoutRow 2 exampleData) exampleIndices = processData exampleData exampleIndices"
    by (elim conjE)
  from c have c4: "\<forall>st' name seen. finalState exampleData exampleIndices = Inr st' \<longrightarrow>
             processedRowIndicesBySheet st' name = Some seen \<longrightarrow> 2 \<notin> seen" by (elim conjE)
  from c4 example_finalState example_lookup(5) have c5: "(2::nat) \<notin> {1, 3, 5, 7}" by blast
  from h1 h2 h4 h3 c1 c2 c3 example_finalState example_lookup(5) c5
  show ?thesis by (intro conjI)
qed

text \<open>
  C4. Let the updated-answer cell of a data row hold \<open>s\<close> with \<open>trim s\<close> not empty, and let
  the answer column and the original-tag column be different columns (as they are in every
  index that \<open>findColumnHeaders\<close> builds, see \<open>findColumnHeaders_inj\<close>). Then the copy
  \<open>r\<close> that the row owes to a category is in the category's bucket and its answer cell is
  \<open>trim s\<close>, whatever the answer cell of the source row was. With the arrays held by
  reference, the iteration appends \<open>r\<close> to the store as a new array and leaves every array
  that was in the store, the source row among them, as it was.
\<close>

theorem C4_updated_answer_in_bucketed_copy:
  assumes "processData data c = Inr out"
    and "0 < i" and "i < length data"
    and "c RESPUESTA_COL_NAME \<noteq> c ETIQUETA_ORIG_COL_NAME"
    and "toString (getCell (spread (data ! i)) (c RESPUESTA_ACT_COL_NAME)) = Inr s"
    and "trim s \<noteq> []"
    and "(name, kws) \<in> set GROUPING_RULES"
    and "assignedCopy c kws (data ! i) = Some r"
  shows "(\<exists>rows. out name = Some rows \<and> r \<in> set rows
            \<and> getCell r (c RESPUESTA_COL_NAME) = Some (trim s))
       \<and> (\<forall>h a. a < length h \<longrightarrow> h ! a = spread (data ! i) \<longrightarrow>
             (\<exists>f. filterTransform_store h a c = Inr (Some (length h, f), h @ [r])))"
proof -
  from processData_Inr[OF assms(1)] obtain st where
    st: "finalState data c = Inr st" and out: "out = outputData st" by blast
  have o: "out name = Some (List.map_filter (assignedCopy c kws) (drop 1 data))"
    using finalState_Inr(2)[OF st assms(7)] out by simp
  have "data ! i \<in> set (drop 1 data)" using assms(2,3) by (rule data_row_in_rows)
  with assms(8) have m: "r \<in> set (List.map_filter (assignedCopy c kws) (drop 1 data))"
    by (auto simp: in_bucket_iff)
  from assms(8) obtain tags where "filterTransformParse (data ! i) c = Inr (Tagged r tags)"
    by (auto simp: assignedCopy_Some_iff)
  from filterTransformParse_Tagged[OF this] obtain f where
    ft: "filterTransform (data ! i) c = Inr (Some (r, f))" by blast
  from filterTransform_Some[OF this] obtain r1 where
    a: "overwriteRespuesta (spread (data ! i)) c = Inr r1" and e: "overwriteEtiqueta r1 c = Inr r"
    by blast
  have "getCell r (c RESPUESTA_COL_NAME) = getCell r1 (c RESPUESTA_COL_NAME)"
    using overwriteEtiqueta_other[OF e assms(4)] .
  also have "\<dots> = Some (trim s)"
    using overwriteRespuesta_answer[OF a assms(5,6)] .
  finally have 1: "\<exists>rows. out name = Some rows \<and> r \<in> set rows
            \<and> getCell r (c RESPUESTA_COL_NAME) = Some (trim s)"
    using o m by blast
  have 2: "\<forall>h a. a < length h \<longrightarrow> h ! a = spread (data ! i) \<longrightarrow>
             (\<exists>f. filterTransform_store h a c = Inr (Some (length h, f), h @ [r]))"
    using ft by (simp add: filterTransform_store_refines)
  from 1 2 show ?thesis by blast
qed

theorem C4_witness:
  "processData exampleData exampleIndices = Inr (outputData exampleState)
   \<and> 0 < (1::nat) \<and> 1 < length exampleData
   \<and> exampleData ! 1 = [''SI'', ''old'', ''new answer'', ''Beca'', '''']
   \<and> exampleIndices RESPUESTA_COL_NAME \<noteq> exampleIndices ETIQUETA_ORIG_COL_NAME
   \<and> toString (getCell (spread (exampleData ! 1)) (exampleIndices RESPUESTA_ACT_COL_NAME))
        = Inr ''new answer''
   \<and> trim ''new answer'' \<noteq> []
   \<and> (''FAQ_Ingresantes'', the (map_of GROUPING_RULES ''FAQ_Ingresantes'')) \<in> set GROUPING_RULES
   \<and> assignedCopy exampleIndices (the (map_of GROUPING_RULES ''FAQ_Ingresantes'')) (exampleData ! 1)
        = Some (exampleCopy 1)
   \<and> (\<exists>rows. outputData exampleState ''FAQ_Ingresantes'' = Some rows \<and> exampleCopy 1 \<in> set rows
         \<and> getCell (exampleCopy 1) (exampleIndices RESPUESTA_COL_NAME) = Some (trim ''new answer''))
   \<and> (\<exists>f. filterTransform_store [spread exampleHeaders, spread (exampleData ! 1)] 1 exampleIndices
              = Inr (Some (2, f), [spread exampleHeaders, spread (exampleData ! 1), exampleCopy 1]))"
proof -
  have h2: "0 < (1::nat)" by simp
  have h3: "1 < length exampleData" by (simp add: exampleData_def)
  have h3': "exampleData ! 1 = [''SI'', ''old'', ''new answer'', ''Beca'', '''']"
    by (simp add: exampleData_def)
  have "findColumnHeaders exampleHeaders RESPUESTA_COL_NAME \<noteq> None" by code_simp
  moreover have "RESPUESTA_COL_NAME \<noteq> ETIQUETA_ORIG_COL_NAME"
    by (simp add: RESPUESTA_COL_NAME_def ETIQUETA_ORIG_COL_NAME_def)
  ultimately have h4: "exampleIndices RESPUESTA_COL_NAME \<noteq> exampleIndices ETIQUETA_ORIG_COL_NAME"
    unfolding exampleIndices_def by (rule findColumnHeaders_inj)
  have h5: "toString (getCell (spread (exampleData ! 1)) (exampleIndices RESPUESTA_ACT_COL_NAME))
        = Inr ''new answer''" by code_simp
  have h6: "trim ''new answer'' \<noteq> []" by code_simp
  have h8: "assignedCopy exampleIndices (the (map_of GROUPING_RULES ''FAQ_Ingresantes'')) (exampleData ! 1)
        = Some (exampleCopy 1)"
    using example_assigned(1)[OF ingresantes_rule] by simp
  note c = C4_updated_answer_in_bucketed_copy[OF example_processData h2 h3 h4 h5 h6 ingresantes_rule h8]
  from c have c1: "\<exists>rows. outputData exampleState ''FAQ_Ingresantes'' = Some rows \<and> exampleCopy 1 \<in> set rows
         \<and> getCell (exampleCopy 1) (exampleIndices RESPUESTA_COL_NAME) = Some (trim ''new answer'')"
    by (rule conjunct1)
  from c have "\<forall>h a. a < length h \<longrightarrow> h ! a = spread (exampleData ! 1) \<longrightarrow>
             (\<exists>f. filterTransform_store h a exampleIndices = Inr (Some (length h, f), h @ [exampleCopy 1]))"
    by (rule conjunct2)
  then have "1 < length [spread exampleHeaders, spread (exampleData ! 1)] \<longrightarrow>
       [spread exampleHeaders, spread (exampleData ! 1)] ! 1 = spread (exampleData ! 1) \<longrightarrow>
       (\<exists>f. filterTransform_store [spread exampleHeaders, spread (exampleData ! 1)] 1 exampleIndices
           = Inr (Some (length [spread exampleHeaders, spread (exampleData ! 1)], f),
                  [spread exampleHeaders, spread (exampleData ! 1)] @ [exampleCopy 1]))"
    by blast
  then have c2: "\<exists>f. filterTransform_store [spread exampleHeaders, spread (exampleData ! 1)] 1 exampleIndices
              = Inr (Some (2, f), [spread exampleHeaders, spread (exampleData ! 1), exampleCopy 1])"
    by (simp add: numeral_2_eq_2)
  from example_processData h2 h3 h3' h4 h5 h6 ingresantes_rule h8 c1 c2
  show ?thesis by (intro conjI)
qed

text \<open>
  C5. Let a data row pass the publish filter, let its updated-answer cell be readable, and
  let its proposed-tag cell hold \<open>s\<close> with \<open>trim s\<close> not empty, the answer column and the
  proposed-tag column being different columns. Then the original-tag cell of the row's
  copy is \<open>trim s\<close>, the final tag string is \<open>trim s\<close>, and both the comparison with the
  excluded tag and the parsing of the tags are made on \<open>trim s\<close>: what the original-tag
  cell of the source row held plays no part.
\<close>

theorem C5_proposed_tag_replaces_original:
  assumes "publicableValue (spread row) c = Inr p" and "p \<noteq> codeUnits ''NO''"
    and "toString (getCell (spread row) (c RESPUESTA_ACT_COL_NAME)) = Inr a"
    and "c RESPUESTA_COL_NAME \<noteq> c ETIQUETA_PROP_COL_NAME"
    and "toString (getCell (spread row) (c ETIQUETA_PROP_COL_NAME)) = Inr s"
    and "trim s \<noteq> []"
  shows "\<exists>r. filterTransform row c = Inr (Some (r, trim s))
           \<and> getCell r (c ETIQUETA_ORIG_COL_NAME) = Some (trim s)
           \<and> filterTransformParse row c =
               Inr (if toLowerCase (trim s) = toLowerCase EXCLUDED_TAG then Skip
                    else if parseTags (trim s) = [] then Skip
                    else Tagged r (parseTags (trim s)))"
proof -
  from assms(3) have "\<exists>r1. overwriteRespuesta (spread row) c = Inr r1"
    by (cases "trim a = []") (simp_all add: overwriteRespuesta_def Let_def)
  then obtain r1 where r1: "overwriteRespuesta (spread row) c = Inr r1" by blast
  have "getCell r1 (c ETIQUETA_PROP_COL_NAME) = getCell (spread row) (c ETIQUETA_PROP_COL_NAME)"
    using overwriteRespuesta_other[OF r1] assms(4) by simp
  with assms(5) have ep: "toString (getCell r1 (c ETIQUETA_PROP_COL_NAME)) = Inr s" by simp
  let ?r = "setCell r1 (c ETIQUETA_ORIG_COL_NAME) (trim s)"
  have r2: "overwriteEtiqueta r1 c = Inr ?r"
    using ep assms(6) by (simp add: overwriteEtiqueta_def Let_def)
  have cell: "getCell ?r (c ETIQUETA_ORIG_COL_NAME) = Some (trim s)"
    by (rule getCell_setCell_same)
  then have fe: "finalEtiquetaString ?r c = Inr (trim s)"
    by (simp add: finalEtiquetaString_def toString_def trim_trim)
  have ft: "filterTransform row c = Inr (Some (?r, trim s))"
    using assms(1,2) r1 r2 fe by (simp add: filterTransform_def)
  then have "filterTransformParse row c =
               Inr (if toLowerCase (trim s) = toLowerCase EXCLUDED_TAG then Skip
                    else if parseTags (trim s) = [] then Skip
                    else Tagged ?r (parseTags (trim s)))"
    by (simp add: filterTransformParse_def excludeParse_def)
  with ft cell show ?thesis by blast
qed

theorem C5_witness:
  "exampleData ! 3 =
     [''SI'', ''a'', '''', ''Sedes'', ''Inscripci'' @ [CHR 0xF3] @ ''n abierta; Varios temas'']
   \<and> publicableValue (spread (exampleData ! 3)) exampleIndices = Inr (codeUnits ''SI'')
   \<and> codeUnits ''SI'' \<noteq> codeUnits ''NO''
   \<and> toString (getCell (spread (exampleData ! 3)) (exampleIndices RESPUESTA_ACT_COL_NAME)) = Inr ''''
   \<and> exampleIndices RESPUESTA_COL_NAME \<noteq> exampleIndices ETIQUETA_PROP_COL_NAME
   \<and> toString (getCell (spread (exampleData ! 3)) (exampleIndices ETIQUETA_PROP_COL_NAME))
        = Inr (''Inscripci'' @ [CHR 0xF3] @ ''n abierta; Varios temas'')
   \<and> trim (''Inscripci'' @ [CHR 0xF3] @ ''n abierta; Varios temas'')
        = ''Inscripci'' @ [CHR 0xF3] @ ''n abierta; Varios temas''
   \<and> trim (''Inscripci'' @ [CHR 0xF3] @ ''n abierta; Varios temas'') \<noteq> []
   \<and> toLowerCase ''Sedes'' = toLowerCase EXCLUDED_TAG
   \<and> (\<exists>r. filterTransform (exampleData ! 3) exampleIndices =
              Inr (Some (r, trim (''Inscripci'' @ [CHR 0xF3] @ ''n abierta; Varios temas'')))
          \<and> getCell r (exampleIndices ETIQUETA_ORIG_COL_NAME) =
              Some (trim (''Inscripci'' @ [CHR 0xF3] @ ''n abierta; Varios temas''))
          \<and> filterTransformParse (exampleData ! 3) exampleIndices =
               Inr (if toLowerCase (trim (''Inscripci'' @ [CHR 0xF3] @ ''n abierta; Varios temas''))
                       = toLowerCase EXCLUDED_TAG then Skip
                    else if parseTags (trim (''Inscripci'' @ [CHR 0xF3] @ ''n abierta; Varios temas'')) = []
                    then Skip
                    else Tagged r (parseTags (trim (''Inscripci'' @ [CHR 0xF3] @ ''n abierta; Varios temas'')))))
   \<and> filterTransformParse (exampleData ! 3) exampleIndices =
        Inr (Tagged (exampleCopy 3) [''inscripci'' @ [CHR 0xF3] @ ''n abierta'', ''varios temas''])"
proof -
  have h0: "exampleData ! 3 =
     [''SI'', ''a'', '''', ''Sedes'', ''Inscripci'' @ [CHR 0xF3] @ ''n abierta; Varios temas'']"
    by (simp add: exampleData_def)
  have h1: "publicableValue (spread (exampleData ! 3)) exampleIndices = Inr (codeUnits ''SI'')"
    by code_simp
  have h2: "codeUnits ''SI'' \<noteq> codeUnits ''NO''" by code_simp
  have h3: "toString (getCell (spread (exampleData ! 3)) (exampleIndices RESPUESTA_ACT_COL_NAME)) = Inr ''''"
    by code_simp
  have "findColumnHeaders exampleHeaders RESPUESTA_COL_NAME \<noteq> None" by code_simp
  moreover have "RESPUESTA_COL_NAME \<noteq> ETIQUETA_PROP_COL_NAME"
    by (simp add: RESPUESTA_COL_NAME_def ETIQUETA_PROP_COL_NAME_def)
  ultimately have h4: "exampleIndices RESPUESTA_COL_NAME \<noteq> exampleIndices ETIQUETA_PROP_COL_NAME"
    unfolding exampleIndices_def by (rule findColumnHeaders_inj)
  have h5: "toString (getCell (spread (exampleData ! 3)) (exampleIndices ETIQUETA_PROP_COL_NAME))
        = Inr (''Inscripci'' @ [CHR 0xF3] @ ''n abierta; Varios temas'')" by code_simp
  have h6: "trim (''Inscripci'' @ [CHR 0xF3] @ ''n abierta; Varios temas'')
        = ''Inscripci'' @ [CHR 0xF3] @ ''n abierta; Varios temas''" by code_simp
  have h7: "trim (''Inscripci'' @ [CHR 0xF3] @ ''n abierta; Varios temas'') \<noteq> []" by code_simp
  have h8: "toLowerCase ''Sedes'' = toLowerCase EXCLUDED_TAG" by (simp add: EXCLUDED_TAG_def)
  note c = C5_proposed_tag_replaces_original[OF h1 h2 h3 h4 h5 h7]
  from h0 h1 h2 h3 h4 h5 h6 h7 h8 c example_row_3
  show ?thesis by (intro conjI)
qed

text \<open>
  C6. Let a data row reach the parsing of its tags: it passes the publish filter with copy
  \<open>r\<close> and final tag string \<open>f\<close>, and \<open>f\<close> is not the excluded tag. The tags are the
  pieces of \<open>f\<close> between the separators (the pieces hold no separator and joined by it
  give \<open>f\<close> back), each trimmed and then lower-cased, without the empty ones. When a tag
  remains the row goes on to the rules with these tags; when none remains the row is
  skipped: the iteration leaves the state as it was, the result is the result on the sheet
  without the row, and no category records the row's index.
\<close>

theorem C6_tags_parsed_or_row_excluded:
  assumes "0 < i" and "i < length data"
    and "filterTransform (data ! i) c = Inr (Some (r, f))"
    and "toLowerCase f \<noteq> toLowerCase EXCLUDED_TAG"
  shows "join TAG_SEPARATOR (split TAG_SEPARATOR f) = f
       \<and> (\<forall>p\<in>set (split TAG_SEPARATOR f). TAG_SEPARATOR \<notin> set p)
       \<and> parseTags f =
           filter (\<lambda>tag. tag \<noteq> []) (map (\<lambda>p. toLowerCase (trim p)) (split TAG_SEPARATOR f))
       \<and> (parseTags f \<noteq> [] \<longrightarrow>
            filterTransformParse (data ! i) c = Inr (Tagged r (parseTags f)))
       \<and> (parseTags f = [] \<longrightarrow>
            filterTransformParse (data ! i) c = Inr Skip
          \<and> loopBody rules c i (data ! i) st = Inr st
          \<and> processData (withoutRow i data) c = processData data c
          \<and> (\<forall>st' name seen. finalState data c = Inr st' \<longrightarrow>
                processedRowIndicesBySheet st' name = Some seen \<longrightarrow> i \<notin> seen))"
proof (intro conjI impI)
  show "join TAG_SEPARATOR (split TAG_SEPARATOR f) = f" by (rule join_split)
  show "\<forall>p\<in>set (split TAG_SEPARATOR f). TAG_SEPARATOR \<notin> set p"
    using split_no_sep by blast
  show "parseTags f =
      filter (\<lambda>tag. tag \<noteq> []) (map (\<lambda>p. toLowerCase (trim p)) (split TAG_SEPARATOR f))"
    by (simp add: parseTags_def)
next
  assume "parseTags f \<noteq> []"
  then show "filterTransformParse (data ! i) c = Inr (Tagged r (parseTags f))"
    using assms(3,4) by (simp add: filterTransformParse_def excludeParse_def)
next
  assume "parseTags f = []"
  then have sk: "filterTransformParse (data ! i) c = Inr Skip"
    using assms(3,4) by (simp add: filterTransformParse_def excludeParse_def)
  show "filterTransformParse (data ! i) c = Inr Skip" by (rule sk)
  show "loopBody rules c i (data ! i) st = Inr st" by (rule skipped_row_loopBody[OF sk])
  show "processData (withoutRow i data) c = processData data c"
    by (rule skipped_row_processData[OF assms(1,2) sk])
  show "\<forall>st' name seen. finalState data c = Inr st' \<longrightarrow>
          processedRowIndicesBySheet st' name = Some seen \<longrightarrow> i \<notin> seen"
    using skipped_row_unseen[OF sk] by blast
qed

theorem C6_witness:
  "0 < (6::nat) \<and> 6 < length exampleData
   \<and> exampleData ! 6 = [''SI'', ''a'', '''', '' ; ;'', '' '']
   \<and> filterTransform (exampleData ! 6) exampleIndices =
        Inr (Some (spread [''SI'', ''a'', '''', '' ; ;'', '' ''], ''; ;''))
   \<and> toLowerCase ''; ;'' \<noteq> toLowerCase EXCLUDED_TAG
   \<and> split TAG_SEPARATOR ''; ;'' = ['''', '' '', '''']
   \<and> join TAG_SEPARATOR (split TAG_SEPARATOR ''; ;'') = ''; ;''
   \<and> parseTags ''; ;'' = []
   \<and> filterTransformParse (exampleData ! 6) exampleIndices = Inr Skip
   \<and> loopBody GROUPING_RULES exampleIndices 6 (exampleData ! 6) exampleState = Inr exampleState
   \<and> processData (withoutRow 6 exampleData) exampleIndices = processData exampleData exampleIndices
   \<and> finalState exampleData exampleIndices = Inr exampleState
   \<and> processedRowIndicesBySheet exampleState ''FAQ_Ingresantes'' = Some {1, 3, 5, 7}
   \<and> (6::nat) \<notin> {1, 3, 5, 7}
   \<and> 0 < (5::nat) \<and> 5 < length exampleData
   \<and> filterTransform (exampleData ! 5) exampleIndices = Inr (Some (exampleCopy 5, ''Ingreso;Sedes''))
   \<and> toLowerCase ''Ingreso;Sedes'' \<noteq> toLowerCase EXCLUDED_TAG
   \<and> parseTags ''Ingreso;Sedes'' = [''ingreso'', ''sedes'']
   \<and> filterTransformParse (exampleData ! 5) exampleIndices =
        Inr (Tagged (exampleCopy 5) (parseTags ''Ingreso;Sedes''))"
proof -
  have h1: "0 < (6::nat)" by simp
  have h2: "6 < length exampleData" by (simp add: exampleData_def)
  have h3: "filterTransform (exampleData ! 6) exampleIndices =
        Inr (Some (spread [''SI'', ''a'', '''', '' ; ;'', '' ''], ''; ;''))"
    by code_simp
  have h4: "exampleData ! 6 = [''SI'', ''a'', '''', '' ; ;'', '' '']"
    by (simp add: exampleData_def)
  have h5: "toLowerCase ''; ;'' \<noteq> toLowerCase EXCLUDED_TAG" by code_simp
  have h6: "split TAG_SEPARATOR ''; ;'' = ['''', '' '', '''']" by code_simp
  have h7: "parseTags ''; ;'' = []" by code_simp
  note c = C6_tags_parsed_or_row_excluded[OF h1 h2 h3 h5, of GROUPING_RULES exampleState]
  from c have c0: "join TAG_SEPARATOR (split TAG_SEPARATOR ''; ;'') = ''; ;''" by (rule conjunct1)
  from c h7 have c1: "filterTransformParse (exampleData ! 6) exampleIndices = Inr Skip" by blast
  from c h7 have c2: "loopBody GROUPING_RULES exampleIndices 6 (exampleData ! 6) exampleState = Inr exampleState"
    by blast
  from c h7 have c3: "processData (withoutRow 6 exampleData) exampleIndices = processData exampleData exampleIndices"
    by blast
  from c h7 have c4: "\<forall>st' name seen. finalState exampleData exampleIndices = Inr st' \<longrightarrow>
             processedRowIndicesBySheet st' name = Some seen \<longrightarrow> 6 \<notin> seen" by blast
  from c4 example_finalState example_lookup(5) have c5: "(6::nat) \<notin> {1, 3, 5, 7}" by blast
  have g1: "0 < (5::nat)" by simp
  have g2: "5 < length exampleData" by (simp add: exampleData_def)
  have g3: "filterTransform (exampleData ! 5) exampleIndices = Inr (Some (exampleCopy 5, ''Ingreso;Sedes''))"
    by code_simp
  have g5: "toLowerCase ''Ingreso;Sedes'' \<noteq> toLowerCase EXCLUDED_TAG" by code_simp
  have g7: "parseTags ''Ingreso;Sedes'' = [''ingreso'', ''sedes'']" by code_simp
  then have g8: "parseTags ''Ingreso;Sedes'' \<noteq> []" by simp
  note d = C6_tags_parsed_or_row_excluded[OF g1 g2 g3 g5, of GROUPING_RULES exampleState]
  from d g8 have d1: "filterTransformParse (exampleData ! 5) exampleIndices =
        Inr (Tagged (exampleCopy 5) (parseTags ''Ingreso;Sedes''))" by blast
  from h1 h2 h4 h3 h5 h6 c0 h7 c1 c2 c3 example_finalState example_lookup(5) c5 g1 g2 g3 g5 g7 d1
  show ?thesis by (intro conjI)
qed

text \<open>
  C7. When the loop is left, the bucket of a configured category holds one entry for each
  index of a duplicate-free list of data-row indices, the entry being the copy that the
  row owes to the category, and the category's set of row indices is the set of that
  list. So no data row has two entries in one bucket, however many keywords or tags of
  the row match, and the rows with an entry are the rows whose index was recorded.
\<close>

theorem C7_one_entry_per_row_and_category:
  assumes "finalState data c = Inr st"
    and "(name, kws) \<in> set GROUPING_RULES"
  shows "\<exists>is. distinct is \<and> set is \<subseteq> {1..<length data}
            \<and> outputData st name = Some (map (\<lambda>i. the (assignedCopy c kws (data ! i))) is)
            \<and> processedRowIndicesBySheet st name = Some (set is)"
proof -
  let ?is = "filter (\<lambda>j. assignedCopy c kws (data ! j) \<noteq> None) [1..<length data]"
  have "distinct ?is" by simp
  moreover have "set ?is \<subseteq> {1..<length data}" by auto
  moreover have "outputData st name = Some (map (\<lambda>i. the (assignedCopy c kws (data ! i))) ?is)"
    using finalState_Inr(2)[OF assms] by (simp only: bucket_by_index)
  moreover have "processedRowIndicesBySheet st name = Some (set ?is)"
    using finalState_Inr(3)[OF assms] by (simp only: assignedIndices_data)
  ultimately show ?thesis by blast
qed

theorem C7_witness:
  "finalState exampleData exampleIndices = Inr exampleState
   \<and> (''FAQ_Ingresantes'', the (map_of GROUPING_RULES ''FAQ_Ingresantes'')) \<in> set GROUPING_RULES
   \<and> filterTransformParse (exampleData ! 7) exampleIndices =
        Inr (Tagged (exampleCopy 7) [''ingreso'', ''ingresantes''])
   \<and> outputData exampleState ''FAQ_Ingresantes'' =
        Some [exampleCopy 1, exampleCopy 3, exampleCopy 5, exampleCopy 7]
   \<and> processedRowIndicesBySheet exampleState ''FAQ_Ingresantes'' = Some {1, 3, 5, 7}
   \<and> (\<exists>is. distinct is \<and> set is \<subseteq> {1..<length exampleData}
          \<and> outputData exampleState ''FAQ_Ingresantes'' =
               Some (map (\<lambda>i. the (assignedCopy exampleIndices
                                     (the (map_of GROUPING_RULES ''FAQ_Ingresantes''))
                                     (exampleData ! i))) is)
          \<and> processedRowIndicesBySheet exampleState ''FAQ_Ingresantes'' = Some (set is))"
  using C7_one_entry_per_row_and_category[OF example_finalState ingresantes_rule]
    example_finalState ingresantes_rule example_row_7 example_lookup(1,5)
  by (intro conjI)

text \<open>
  C8. The bucket that \<open>processData\<close> returns for a configured category lists the copies
  along a strictly increasing list of row indices, which are exactly the indices of the
  data rows that owe a copy to the category: copies stand in the bucket in the order of
  their rows in the source table.
\<close>

theorem C8_bucket_in_source_order:
  assumes "processData data c = Inr out"
    and "(name, kws) \<in> set GROUPING_RULES"
  shows "\<exists>is. sorted_wrt (<) is
            \<and> set is = {i. 0 < i \<and> i < length data \<and> assignedCopy c kws (data ! i) \<noteq> None}
            \<and> out name = Some (map (\<lambda>i. the (assignedCopy c kws (data ! i))) is)"
proof -
  let ?is = "filter (\<lambda>j. assignedCopy c kws (data ! j) \<noteq> None) [1..<length data]"
  from processData_Inr[OF assms(1)] obtain st where
    st: "finalState data c = Inr st" and out: "out = outputData st" by blast
  have "sorted_wrt (<) ?is" by (rule sorted_wrt_filter) simp
  moreover have "set ?is = {i. 0 < i \<and> i < length data \<and> assignedCopy c kws (data ! i) \<noteq> None}"
    by auto
  moreover have "out name = Some (map (\<lambda>i. the (assignedCopy c kws (data ! i))) ?is)"
    using finalState_Inr(2)[OF st assms(2)] out by (simp only: bucket_by_index)
  ultimately show ?thesis by blast
qed

theorem C8_witness:
  "processData exampleData exampleIndices = Inr (outputData exampleState)
   \<and> (''FAQ_Ingresantes'', the (map_of GROUPING_RULES ''FAQ_Ingresantes'')) \<in> set GROUPING_RULES
   \<and> outputData exampleState ''FAQ_Ingresantes'' =
        Some [exampleCopy 1, exampleCopy 3, exampleCopy 5, exampleCopy 7]
   \<and> (\<exists>is. sorted_wrt (<) is
          \<and> set is = {i. 0 < i \<and> i < length exampleData
                         \<and> assignedCopy exampleIndices
                              (the (map_of GROUPING_RULES ''FAQ_Ingresantes''))
                              (exampleData ! i) \<noteq> None}
          \<and> outputData exampleState ''FAQ_Ingresantes'' =
               Some (map (\<lambda>i. the (assignedCopy exampleIndices
                                     (the (map_of GROUPING_RULES ''FAQ_Ingresantes''))
                                     (exampleData ! i))) is))"
  using C8_bucket_in_source_order[OF example_processData ingresantes_rule]
    example_processData ingresantes_rule example_lookup(1)
  by (intro conjI)

text \<open>
  C9. For a sheet with a header row and at least one data row, the run is decided by the
  first required column name, in the order publishable, answer, updated answer, original
  tag, proposed tag, to which no cell of the header row trims. If there is one, the run
  ends with the alert that names it and \<open>processData\<close> is not called. If there is none,
  the run hands the sheet and the header index to \<open>processData\<close>; and when every row is
  as long as the header row, as in the values of a data range, \<open>processData\<close> returns its
  buckets.
\<close>

theorem C9_required_columns_validated:
  assumes "2 \<le> length data"
  shows "processAndCreateSheetsAndDocs (Some data) =
           (case List.find (\<lambda>colName. colName \<notin> set (map trim (hd data))) requiredCols of
              Some colName \<Rightarrow> AlertColumnNotFound colName
            | None \<Rightarrow>
                (case processData data (findColumnHeaders (hd data)) of
                   Inl e \<Rightarrow> Thrown e
                 | Inr categorizedData \<Rightarrow> Categorized categorizedData))
       \<and> (List.find (\<lambda>colName. colName \<notin> set (map trim (hd data))) requiredCols = None
            \<and> list_all (\<lambda>row. length row = length (hd data)) data \<longrightarrow>
          (\<exists>categorizedData. processAndCreateSheetsAndDocs (Some data) = Categorized categorizedData))"
proof -
  have 1: "processAndCreateSheetsAndDocs (Some data) =
           (case List.find (\<lambda>colName. colName \<notin> set (map trim (hd data))) requiredCols of
              Some colName \<Rightarrow> AlertColumnNotFound colName
            | None \<Rightarrow>
                (case processData data (findColumnHeaders (hd data)) of
                   Inl e \<Rightarrow> Thrown e
                 | Inr categorizedData \<Rightarrow> Categorized categorizedData))"
    using assms by (simp add: processAndCreateSheetsAndDocs_def Let_def firstUndefined_headers)
  have 2: "\<exists>categorizedData. processAndCreateSheetsAndDocs (Some data) = Categorized categorizedData"
    if n: "List.find (\<lambda>colName. colName \<notin> set (map trim (hd data))) requiredCols = None"
    and r: "list_all (\<lambda>row. length row = length (hd data)) data"
  proof -
    from n have a: "\<forall>colName\<in>set requiredCols. colName \<in> set (map trim (hd data))"
      by (auto simp: find_None_iff)
    from r have b: "\<forall>row\<in>set (drop 1 data). length row = length (hd data)"
      by (auto simp: list_all_iff dest: in_set_dropD)
    from rectangular_no_throw[OF a b]
    have "\<exists>out. processData data (findColumnHeaders (hd data)) = Inr out"
      by (simp add: processData_char)
    then show ?thesis using 1 n by auto
  qed
  from 1 2 show ?thesis by blast
qed

theorem C9_witness:
  "2 \<le> length exampleData
   \<and> hd exampleData = exampleHeaders
   \<and> List.find (\<lambda>colName. colName \<notin> set (map trim (hd exampleData))) requiredCols = None
   \<and> list_all (\<lambda>row. length row = length (hd exampleData)) exampleData
   \<and> processAndCreateSheetsAndDocs (Some exampleData) = Categorized (outputData exampleState)
   \<and> 2 \<le> length [[''Publicable'', ''Respuesta''], [''SI'', ''x'']]
   \<and> List.find (\<lambda>colName. colName \<notin> set (map trim (hd [[''Publicable'', ''Respuesta''], [''SI'', ''x'']])))
        requiredCols = Some ''Respuesta Actualizada''
   \<and> processAndCreateSheetsAndDocs (Some [[''Publicable'', ''Respuesta''], [''SI'', ''x'']])
        = AlertColumnNotFound ''Respuesta Actualizada''"
proof -
  have h1: "2 \<le> length exampleData" by (simp add: exampleData_def)
  have h2: "hd exampleData = exampleHeaders" by (simp add: exampleData_def)
  have h3: "List.find (\<lambda>colName. colName \<notin> set (map trim (hd exampleData))) requiredCols = None"
    by code_simp
  have h4: "list_all (\<lambda>row. length row = length (hd exampleData)) exampleData"
    by code_simp
  have p: "processData exampleData (findColumnHeaders (hd exampleData)) = Inr (outputData exampleState)"
    using example_processData by (simp add: h2 exampleIndices_def)
  from C9_required_columns_validated[OF h1, THEN conjunct1]
  have c1: "processAndCreateSheetsAndDocs (Some exampleData) = Categorized (outputData exampleState)"
    by (simp only: h3 p option.case sum.case)
  have g1: "2 \<le> length [[''Publicable'', ''Respuesta''], [''SI'', ''x'']]" by simp
  have g3: "List.find (\<lambda>colName. colName \<notin> set (map trim (hd [[''Publicable'', ''Respuesta''], [''SI'', ''x'']])))
        requiredCols = Some ''Respuesta Actualizada''"
    by code_simp
  from C9_required_columns_validated[OF g1, THEN conjunct1]
  have d1: "processAndCreateSheetsAndDocs (Some [[''Publicable'', ''Respuesta''], [''SI'', ''x'']])
        = AlertColumnNotFound ''Respuesta Actualizada''"
    by (simp only: g3 option.case)
  from h1 h2 h3 h4 c1 g1 g3 d1 show ?thesis by (intro conjI)
qed

text \<open>
  C10. A header cell that trims to \<open>__proto__\<close> gets no entry in the header index, while
  of two cells that trim to \<open>Publicable\<close> the later one gives the index. For every other
  name the index is the position of the last header cell that trims to the name
  (\<open>findColumnHeaders_Some_iff\<close>), and there is no entry for a name to which no cell trims
  (\<open>findColumnHeaders_None_iff\<close>).
\<close>

theorem C10_proto_header_has_no_index:
  "findColumnHeaders ['' __proto__'', ''Publicable'', ''Publicable ''] ''__proto__'' = None
   \<and> findColumnHeaders ['' __proto__'', ''Publicable'', ''Publicable ''] ''Publicable'' = Some 2"
  by code_simp

end
